theory Spec2Isabelle
  imports Complex_Main "HOL-Library.AList"
begin

section \<open>Python values and strings\<close>

text \<open>
  Ticker symbols are Python \<open>str\<close> values.  They are modelled as \<open>string\<close> and taken
  to be ASCII: \<open>str.upper\<close> maps \<open>a..z\<close> to \<open>A..Z\<close> and leaves every other ASCII
  character alone (a lower-case letter's code minus 32 is its code with bit 5 cleared),
  and \<open>str.strip\<close> removes the ASCII characters for which \<open>str.isspace\<close> holds
  (codes 9-13 and 28-32) from both ends.
\<close>

definition upper_char :: "char \<Rightarrow> char" where
  "upper_char c =
     (case c of Char b0 b1 b2 b3 b4 b5 b6 b7 \<Rightarrow>
        if 97 \<le> (of_char c :: nat) \<and> (of_char c :: nat) \<le> 122
        then Char b0 b1 b2 b3 b4 False b6 b7 else c)"

definition upper :: "string \<Rightarrow> string" where
  "upper s = map upper_char s"

definition isspace :: "char \<Rightarrow> bool" where
  "isspace c = (let n = (of_char c :: nat) in (9 \<le> n \<and> n \<le> 13) \<or> (28 \<le> n \<and> n \<le> 32))"

definition strip :: "string \<Rightarrow> string" where
  "strip s = rev (dropWhile isspace (rev (dropWhile isspace s)))"

text \<open>\<open>p in s\<close> on strings: \<open>p\<close> occurs in \<open>s\<close> as a contiguous substring.\<close>

fun str_in :: "string \<Rightarrow> string \<Rightarrow> bool" where
  "str_in p [] = (p = [])"
| "str_in p (c # cs) = (take (length p) (c # cs) = p \<or> str_in p cs)"

definition endswith :: "string \<Rightarrow> string \<Rightarrow> bool" where
  "endswith s suf = (take (length suf) (rev s) = rev suf)"

text \<open>
  The values found in the provider's \<open>info\<close> dictionary and stored in a stock record:
  \<open>None\<close>, a number, or a string.  Numbers are real numbers (rounding is not modelled).
\<close>

datatype pyval = PNone | PNum real | PStr string

fun truthy :: "pyval \<Rightarrow> bool" where
  "truthy PNone = False"
| "truthy (PNum x) = (x \<noteq> 0)"
| "truthy (PStr s) = (s \<noteq> [])"

type_synonym info = "string \<rightharpoonup> pyval"

text \<open>\<open>d.get(k)\<close> and \<open>d.get(k, default)\<close>.\<close>

definition dict_get :: "info \<Rightarrow> string \<Rightarrow> pyval" where
  "dict_get d k = (case d k of None \<Rightarrow> PNone | Some v \<Rightarrow> v)"

definition get_default :: "info \<Rightarrow> string \<Rightarrow> pyval \<Rightarrow> pyval" where
  "get_default d k dflt = (case d k of None \<Rightarrow> dflt | Some v \<Rightarrow> v)"

text \<open>\<open>a or b\<close>: the first operand when it is truthy, the second otherwise.\<close>

definition py_or :: "pyval \<Rightarrow> pyval \<Rightarrow> pyval" where
  "py_or a b = (if truthy a then a else b)"

text \<open>
  \<open>v * 100\<close> for a truthy \<open>v\<close>: a number is multiplied, a string is repeated.
\<close>

fun times100 :: "pyval \<Rightarrow> pyval" where
  "times100 (PNum x) = PNum (x * 100)"
| "times100 (PStr s) = PStr (concat (replicate 100 s))"
| "times100 PNone = PNone"

text \<open>
  Results of numpy float arithmetic on closing prices.  Division by zero does not raise
  there: it yields an infinity or a NaN, which stays through the multiplication by 100.
\<close>

datatype float64 = Fin real | PosInf | NegInf | NaN

definition np_div :: "real \<Rightarrow> real \<Rightarrow> float64" where
  "np_div a b =
     (if b \<noteq> 0 then Fin (a / b) else if 0 < a then PosInf else if a < 0 then NegInf else NaN)"

fun np_mul100 :: "float64 \<Rightarrow> float64" where
  "np_mul100 (Fin x) = Fin (x * 100)"
| "np_mul100 v = v"

section \<open>Symbol normalisation\<close>

definition indian_patterns :: "string list" where
  "indian_patterns =
    [''RELIANCE'', ''TCS'', ''INFY'', ''HDFCBANK'', ''ICICIBANK'', ''SBIN'', ''ITC'',
     ''HINDUNILVR'', ''BHARTIARTL'', ''KOTAKBANK'', ''LT'', ''ASIANPAINT'', ''MARUTI'',
     ''TITAN'', ''NESTLEIND'', ''ULTRACEMCO'', ''POWERGRID'', ''NTPC'', ''ONGC'',
     ''COALINDIA'', ''WIPRO'', ''TECHM'', ''HCLTECH'', ''DRREDDY'', ''SUNPHARMA'', ''CIPLA'',
     ''DIVISLAB'', ''BAJFINANCE'', ''BAJAJFINSV'', ''AXISBANK'', ''INDUSINDBK'',
     ''TATAMOTORS'', ''TATASTEEL'', ''JSWSTEEL'', ''HINDALCO'', ''ADANIPORTS'', ''ADANIENT'',
     ''GRASIM'', ''BRITANNIA'', ''HEROMOTOCO'', ''BAJAJ-AUTO'', ''EICHERMOT'', ''BPCL'',
     ''IOC'', ''SHREECEM'', ''AMBUJACEM'', ''ACC'', ''VEDL'', ''SAIL'', ''NMDC'',
     ''JINDALSTEL'', ''TATACHEM'', ''UPL'', ''PIDILITIND'', ''DMART'', ''GODREJCP'',
     ''MARICO'', ''DABUR'', ''COLPAL'', ''PGHH'', ''MCDOWELL-N'', ''UBL'', ''APOLLOHOSP'',
     ''FORTIS'', ''LUPIN'', ''BIOCON'', ''CADILAHC'', ''AUROPHARMA'', ''TORNTPHARM'',
     ''ALKEM'', ''CONCOR'', ''SIEMENS'', ''ABB'', ''BHEL'', ''CROMPTON'', ''HAVELLS'',
     ''VOLTAS'', ''BLUESTAR'', ''CUMMINSIND'', ''BOSCHLTD'', ''MOTHERSUMI'', ''AMARAJABAT'',
     ''EXIDEIND'', ''MFSL'', ''SRTRANSFIN'', ''CHOLAFIN'', ''PFC'', ''RECLTD'', ''IRCTC'',
     ''CONCOR'', ''FINOPB'', ''INOXGREEN'']"

text \<open>\<open>any(pattern in symbol for pattern in indian_patterns)\<close>\<close>

definition matches_indian :: "string \<Rightarrow> bool" where
  "matches_indian s = list_ex (\<lambda>pattern. str_in pattern s) indian_patterns"

definition normalize_symbol :: "string \<Rightarrow> string" where
  "normalize_symbol symbol0 =
     (let symbol = strip (upper symbol0) in
      if CHR ''.'' \<in> set symbol then symbol
      else if matches_indian symbol \<or> length symbol > 6 then symbol @ ''.NS''
      else symbol)"

section \<open>The market data provider\<close>

text \<open>
  \<open>yf.Ticker(t).info\<close> and \<open>yf.Ticker(t).history(...)\<close> are calls to an external
  provider.  A provider maps a ticker to the pair of its quote snapshot and its daily
  history (one row per date, with the \<open>Close\<close> and \<open>Volume\<close> columns), or raises.
  Closing prices are real numbers (no NaN rows, no rounding), and the rate-limiting
  sleeps are not modelled.
\<close>

datatype error = UpstreamError | ValueError | TypeError

record bar =
  Date :: nat
  Close :: real
  Volume :: real

type_synonym provider = "string \<Rightarrow> error + (info \<times> bar list)"

section \<open>Fetching one stock\<close>

text \<open>
  The state of \<open>get_stock_info\<close> while it looks for data: the tickers requested from
  the provider so far, and the current \<open>normalized_symbol\<close>, \<open>info\<close> and \<open>hist_data\<close>.
  An exception leaves the whole \<open>try\<close> block, so it ends the search; the tickers
  requested up to then are kept, to state which candidates were tried.
\<close>

type_synonym fetch_state = "string \<times> info \<times> bar list"

text \<open>Lines 50-57: the BSE retry after a \<open>.NS\<close> ticker without data.\<close>

definition try_bse ::
  "provider \<Rightarrow> string \<Rightarrow> string list \<times> fetch_state \<Rightarrow> string list \<times> (error + fetch_state)" where
  "try_bse P symbol st =
     (case st of (tried, normalized_symbol, info, hist_data) \<Rightarrow>
        if hist_data = [] \<and> endswith normalized_symbol ''.NS'' then
          (let bse_symbol = symbol @ ''.BO'' in
           case P bse_symbol of
             Inl e \<Rightarrow> (tried @ [bse_symbol], Inl e)
           | Inr (info', hist_data') \<Rightarrow> (tried @ [bse_symbol], Inr (bse_symbol, info', hist_data')))
        else (tried, Inr (normalized_symbol, info, hist_data)))"

text \<open>Lines 61-69: the loop over the suffixes, left at the first ticker with data.\<close>

fun try_suffixes ::
  "provider \<Rightarrow> string \<Rightarrow> string list \<Rightarrow> string list \<times> fetch_state
     \<Rightarrow> string list \<times> (error + fetch_state)" where
  "try_suffixes P symbol [] (tried, st) = (tried, Inr st)"
| "try_suffixes P symbol (suffix # rest) (tried, normalized_symbol, info, hist_data) =
     (let try_symbol = symbol @ suffix in
      case P try_symbol of
        Inl e \<Rightarrow> (tried @ [try_symbol], Inl e)
      | Inr (info', hist_data') \<Rightarrow>
          if hist_data' \<noteq> [] then (tried @ [try_symbol], Inr (try_symbol, info', hist_data'))
          else try_suffixes P symbol rest (tried @ [try_symbol], normalized_symbol, info', hist_data'))"

text \<open>Lines 59-69.\<close>

definition try_indian ::
  "provider \<Rightarrow> string \<Rightarrow> string list \<times> fetch_state \<Rightarrow> string list \<times> (error + fetch_state)" where
  "try_indian P symbol st =
     (case st of (tried, normalized_symbol, info, hist_data) \<Rightarrow>
        if hist_data = [] \<and> CHR ''.'' \<notin> set normalized_symbol
        then try_suffixes P symbol [''.NS'', ''.BO''] (tried, normalized_symbol, info, hist_data)
        else (tried, Inr (normalized_symbol, info, hist_data)))"

text \<open>Lines 40-69: the requests made, and the state they end in.\<close>

definition resolve :: "provider \<Rightarrow> string \<Rightarrow> string list \<times> (error + fetch_state)" where
  "resolve P symbol =
     (let normalized_symbol = normalize_symbol symbol in
      case P normalized_symbol of
        Inl e \<Rightarrow> ([normalized_symbol], Inl e)
      | Inr (info, hist_data) \<Rightarrow>
          (case try_bse P symbol ([normalized_symbol], normalized_symbol, info, hist_data) of
             (tried, Inl e) \<Rightarrow> (tried, Inl e)
           | (tried, Inr st) \<Rightarrow> try_indian P symbol (tried, st)))"

definition requested :: "provider \<Rightarrow> string \<Rightarrow> string list" where
  "requested P symbol = fst (resolve P symbol)"

text \<open>
  The candidates of a symbol, in resolution order: the tickers requested when none of
  them has data.
\<close>

definition no_data :: provider where
  "no_data t = Inr (Map.empty, [])"

definition candidates :: "string \<Rightarrow> string list" where
  "candidates symbol = requested no_data symbol"

record stock_data =
  symbol :: string
  normalized_symbol :: string
  company_name :: pyval
  current_price :: real
  six_month_change :: float64
  pe_ratio :: pyval
  forward_pe :: pyval
  dividend_yield :: pyval
  price_to_book :: pyval
  debt_to_equity :: pyval
  roe :: pyval
  market_cap :: pyval
  volume :: pyval
  price_history :: "(nat \<times> real) list"
  currency :: pyval
  exchange :: pyval

text \<open>Lines 75-79.\<close>

definition six_month_change_of :: "bar list \<Rightarrow> float64" where
  "six_month_change_of hist_data =
     (if length hist_data > 1
      then np_mul100 (np_div (Close (last hist_data) - Close (hd hist_data)) (Close (hd hist_data)))
      else Fin 0)"

text \<open>
  \<open>float(v)\<close>: the number itself, or the number a string parses to.  Python's parser of
  float literals is the parameter \<open>pf\<close>; \<open>None\<close> stands for its \<open>ValueError\<close>.
\<close>

fun py_float :: "(string \<Rightarrow> real option) \<Rightarrow> pyval \<Rightarrow> error + real" where
  "py_float pf (PNum x) = Inr x"
| "py_float pf (PStr s) = (case pf s of None \<Rightarrow> Inl ValueError | Some x \<Rightarrow> Inr x)"
| "py_float pf PNone = Inl TypeError"

text \<open>Lines 82-84 and 94.\<close>

definition current_price_of :: "(string \<Rightarrow> real option) \<Rightarrow> info \<Rightarrow> bar list \<Rightarrow> error + real" where
  "current_price_of pf info hist_data =
     (let current_price0 = dict_get info ''currentPrice'';
          current_price1 =
            (if current_price0 = PNone \<or> current_price0 = PNum 0
             then (if hist_data \<noteq> [] then PNum (Close (last hist_data)) else PNum 0)
             else current_price0)
      in if truthy current_price1 then py_float pf current_price1 else Inr 0)"

text \<open>Lines 98 and 101: \<open>info.get(k, 0) * 100 if info.get(k) else None\<close>.\<close>

definition percent_field :: "info \<Rightarrow> string \<Rightarrow> pyval" where
  "percent_field info k =
     (if truthy (dict_get info k) then times100 (get_default info k (PNum 0)) else PNone)"

text \<open>Lines 75-109: the record built from the accepted ticker's snapshot and history.\<close>

definition make_stock_data ::
  "(string \<Rightarrow> real option) \<Rightarrow> string \<Rightarrow> string \<Rightarrow> info \<Rightarrow> bar list \<Rightarrow> error + stock_data" where
  "make_stock_data pf symbol0 normalized info hist_data =
     (case current_price_of pf info hist_data of
        Inl e \<Rightarrow> Inl e
      | Inr price \<Rightarrow>
          Inr \<lparr> symbol = symbol0,
                normalized_symbol = normalized,
                company_name =
                  py_or (py_or (dict_get info ''longName'') (dict_get info ''shortName''))
                    (PStr symbol0),
                current_price = price,
                six_month_change = six_month_change_of hist_data,
                pe_ratio = get_default info ''trailingPE'' (PStr ''N/A''),
                forward_pe = get_default info ''forwardPE'' (PStr ''N/A''),
                dividend_yield = percent_field info ''dividendYield'',
                price_to_book = get_default info ''priceToBook'' (PStr ''N/A''),
                debt_to_equity = get_default info ''debtToEquity'' (PStr ''N/A''),
                roe = percent_field info ''returnOnEquity'',
                market_cap = get_default info ''marketCap'' (PStr ''N/A''),
                volume =
                  get_default info ''volume''
                    (if hist_data \<noteq> [] then PNum (Volume (last hist_data)) else PStr ''N/A''),
                price_history = map (\<lambda>b. (Date b, Close b)) hist_data,
                currency = get_default info ''currency'' (PStr ''USD''),
                exchange = get_default info ''exchange'' (PStr ''Unknown'') \<rparr>)"

text \<open>
  \<open>get_stock_info\<close>: \<open>None\<close> when no ticker has data (lines 71-73) and when anything
  raised (lines 111-113), the record otherwise.
\<close>

definition get_stock_info ::
  "provider \<Rightarrow> (string \<Rightarrow> real option) \<Rightarrow> string \<Rightarrow> stock_data option" where
  "get_stock_info P pf symbol0 =
     (case snd (resolve P symbol0) of
        Inl e \<Rightarrow> None
      | Inr (normalized, info, hist_data) \<Rightarrow>
          if hist_data = [] then None
          else (case make_stock_data pf symbol0 normalized info hist_data of
                  Inl e \<Rightarrow> None
                | Inr r \<Rightarrow> Some r))"

section \<open>Analysing a list of stocks\<close>

text \<open>
  The result dictionary keeps insertion order: a new key goes to the end, an existing
  key keeps its place.  The record is a non-empty dictionary, so \<open>if stock_data\<close> is
  the test that it is not \<open>None\<close>.
\<close>

fun analyze_loop ::
  "provider \<Rightarrow> (string \<Rightarrow> real option) \<Rightarrow> (string \<times> stock_data) list \<Rightarrow> string list
     \<Rightarrow> (string \<times> stock_data) list" where
  "analyze_loop P pf results [] = results"
| "analyze_loop P pf results (s # symbols) =
     (case get_stock_info P pf s of
        Some r \<Rightarrow> analyze_loop P pf (AList.update s r results) symbols
      | None \<Rightarrow> analyze_loop P pf results symbols)"

definition analyze_stocks ::
  "provider \<Rightarrow> (string \<Rightarrow> real option) \<Rightarrow> string list \<Rightarrow> (string \<times> stock_data) list" where
  "analyze_stocks P pf symbols = analyze_loop P pf [] symbols"

section \<open>Correlations\<close>

text \<open>
  A price series is indexed by date, one row per date.  A data frame is an index of
  dates and labelled columns; a column has a value at a date or is missing (NaN)
  there.  \<open>pd.DataFrame(price_data)\<close> takes the sorted union of the series' dates as
  index, and \<open>dropna()\<close> keeps the dates at which no column is missing.
\<close>

type_synonym series = "(nat \<times> real) list"

record dataframe =
  df_index :: "nat list"
  df_columns :: "(string \<times> (nat \<rightharpoonup> real)) list"

definition DataFrame :: "(string \<times> series) list \<Rightarrow> dataframe" where
  "DataFrame price_data =
     \<lparr> df_index = sort (remdups (concat (map (\<lambda>(k, s). map fst s) price_data))),
       df_columns = map (\<lambda>(k, s). (k, map_of s)) price_data \<rparr>"

definition dropna :: "dataframe \<Rightarrow> dataframe" where
  "dropna df =
     df\<lparr> df_index := filter (\<lambda>t. list_all (\<lambda>(k, c). c t \<noteq> None) (df_columns df)) (df_index df) \<rparr>"

definition df_empty :: "dataframe \<Rightarrow> bool" where
  "df_empty df = (df_index df = [] \<or> df_columns df = [])"

text \<open>
  \<open>DataFrame.corr()\<close>: the Pearson coefficient of each pair of columns, over the rows
  where both have a value (at least one row), in exact arithmetic: the covariance
  sum over the root of the product of the two sums of squared deviations, and NaN
  when that divisor is zero.
\<close>

fun pairs :: "nat list \<Rightarrow> (nat \<rightharpoonup> real) \<Rightarrow> (nat \<rightharpoonup> real) \<Rightarrow> (real \<times> real) list" where
  "pairs [] ca cb = []"
| "pairs (t # ts) ca cb =
     (case (ca t, cb t) of
        (Some x, Some y) \<Rightarrow> (x, y) # pairs ts ca cb
      | _ \<Rightarrow> pairs ts ca cb)"

definition mean :: "real list \<Rightarrow> real" where
  "mean xs = sum_list xs / real (length xs)"

definition pearson :: "(real \<times> real) list \<Rightarrow> float64" where
  "pearson ps =
     (if ps = [] then NaN
      else
        (let meanx = mean (map fst ps);
             meany = mean (map snd ps);
             ssqdm_x = sum_list (map (\<lambda>(x, y). (x - meanx) * (x - meanx)) ps);
             ssqdm_y = sum_list (map (\<lambda>(x, y). (y - meany) * (y - meany)) ps);
             covxy = sum_list (map (\<lambda>(x, y). (x - meanx) * (y - meany)) ps);
             divisor = sqrt (ssqdm_x * ssqdm_y)
         in if divisor \<noteq> 0 then Fin (covxy / divisor) else NaN))"

type_synonym matrix = "(string \<times> (string \<times> float64) list) list"

definition corr :: "dataframe \<Rightarrow> matrix" where
  "corr df =
     map (\<lambda>(ka, ca).
            (ka, map (\<lambda>(kb, cb). (kb, pearson (pairs (df_index df) ca cb))) (df_columns df)))
       (df_columns df)"

text \<open>\<open>matrix[a][b]\<close>\<close>

definition cell :: "matrix \<Rightarrow> string \<Rightarrow> string \<Rightarrow> float64 option" where
  "cell M a b = (case map_of M a of None \<Rightarrow> None | Some col \<Rightarrow> map_of col b)"

text \<open>
  Lines 133-137.  The argument is the dictionary of records as a list of items in
  insertion order; every record has the \<open>price_history\<close> key.
\<close>

definition price_data_of :: "(string \<times> stock_data) list \<Rightarrow> (string \<times> series) list" where
  "price_data_of sd =
     map (\<lambda>(sym, d). (sym, price_history d)) (filter (\<lambda>(sym, d). price_history d \<noteq> []) sd)"

definition calculate_correlations :: "(string \<times> stock_data) list \<Rightarrow> matrix option" where
  "calculate_correlations sd =
     (let price_data = price_data_of sd in
      if length price_data < 2 then None
      else
        (let df_prices = dropna (DataFrame price_data) in
         if df_empty df_prices then None else Some (corr df_prices)))"

section \<open>Auxiliary notions for the proofs\<close>

text \<open>The candidates of a symbol, written out: the normalised symbol and its alternates.\<close>

definition candidates_of :: "string \<Rightarrow> string list" where
  "candidates_of s =
     (let n0 = normalize_symbol s in
      n0 # (if endswith n0 ''.NS'' then [s @ ''.BO'']
            else if CHR ''.'' \<notin> set n0 then [s @ ''.NS'', s @ ''.BO''] else []))"

text \<open>What a search ends with: an exception, a ticker with data, or nothing.\<close>

definition outcome :: "error + fetch_state \<Rightarrow> (error + fetch_state) option" where
  "outcome r =
     (case r of
        Inl e \<Rightarrow> Some (Inl e)
      | Inr (n, i, h) \<Rightarrow> if h = [] then None else Some (Inr (n, i, h)))"

text \<open>
  Requesting a list of tickers in order, up to the first one that raises or has data.
\<close>

fun scan ::
  "provider \<Rightarrow> string list \<Rightarrow> string list \<Rightarrow> string list \<times> (error + fetch_state) option" where
  "scan P [] tried = (tried, None)"
| "scan P (c # cs) tried =
     (case P c of
        Inl e \<Rightarrow> (tried @ [c], Some (Inl e))
      | Inr (i, h) \<Rightarrow>
          if h \<noteq> [] then (tried @ [c], Some (Inr (c, i, h))) else scan P cs (tried @ [c]))"

definition finish ::
  "(string \<Rightarrow> real option) \<Rightarrow> string \<Rightarrow> (error + fetch_state) option \<Rightarrow> stock_data option" where
  "finish pf s res =
     (case res of
        Some (Inr (c, i, h)) \<Rightarrow>
          (case make_stock_data pf s c i h of Inl e \<Rightarrow> None | Inr r \<Rightarrow> Some r)
      | _ \<Rightarrow> None)"

text \<open>Sample providers and a float parser that accepts nothing.\<close>

definition no_parse :: "string \<Rightarrow> real option" where
  "no_parse s = None"

definition two_days :: "bar list" where
  "two_days = [\<lparr>Date = 1, Close = 10, Volume = 5\<rparr>, \<lparr>Date = 2, Close = 12, Volume = 7\<rparr>]"

definition sample_info :: info where
  "sample_info = [''currentPrice'' \<mapsto> PNum 11, ''dividendYield'' \<mapsto> PNum (1 / 40)]"

text \<open>Only the Bombay listing of AAPL has data.\<close>

definition bombay_only :: provider where
  "bombay_only t = (if t = ''AAPL.BO'' then Inr (sample_info, two_days) else Inr (Map.empty, []))"

text \<open>The bare ticker raises, the NSE listing has data.\<close>

definition flaky :: provider where
  "flaky t =
     (if t = ''AAPL'' then Inl UpstreamError
      else if t = ''AAPL.NS'' then Inr (sample_info, two_days)
      else Inr (Map.empty, []))"

text \<open>The bare ticker has no data, the NSE listing has.\<close>

definition quiet :: provider where
  "quiet t = (if t = ''AAPL.NS'' then Inr (sample_info, two_days) else Inr (Map.empty, []))"

text \<open>Two tickers with the same two days of history.\<close>

definition msft_days :: "bar list" where
  "msft_days = [\<lparr>Date = 1, Close = 30, Volume = 1\<rparr>, \<lparr>Date = 2, Close = 20, Volume = 1\<rparr>]"

definition both_days :: provider where
  "both_days t =
     (if t = ''AAPL'' then Inr (Map.empty, two_days)
      else if t = ''MSFT'' then Inr (Map.empty, msft_days)
      else Inr (Map.empty, []))"

text \<open>A record with a given price history and no snapshot data, and sample batches.\<close>

definition sample_record :: "string \<Rightarrow> series \<Rightarrow> stock_data" where
  "sample_record ticker ph =
     \<lparr> symbol = ticker, normalized_symbol = ticker, company_name = PStr ticker, current_price = 0,
       six_month_change = Fin 0, pe_ratio = PStr ''N/A'', forward_pe = PStr ''N/A'',
       dividend_yield = PNone, price_to_book = PStr ''N/A'', debt_to_equity = PStr ''N/A'',
       roe = PNone, market_cap = PStr ''N/A'', volume = PStr ''N/A'', price_history = ph,
       currency = PStr ''USD'', exchange = PStr ''Unknown'' \<rparr>"

definition one_row_data :: "(string \<times> stock_data) list" where
  "one_row_data =
     [(''AAPL'', sample_record ''AAPL'' [(1, 10)]), (''MSFT'', sample_record ''MSFT'' [(1, 20)])]"

definition two_row_data :: "(string \<times> stock_data) list" where
  "two_row_data =
     [(''AAPL'', sample_record ''AAPL'' [(1, 10), (2, 12)]),
      (''MSFT'', sample_record ''MSFT'' [(1, 30), (2, 20)])]"

definition disjoint_data :: "(string \<times> stock_data) list" where
  "disjoint_data =
     [(''AAPL'', sample_record ''AAPL'' [(1, 10), (2, 12)]),
      (''MSFT'', sample_record ''MSFT'' [(3, 30), (4, 20)])]"

definition single_data :: "(string \<times> stock_data) list" where
  "single_data =
     [(''AAPL'', sample_record ''AAPL'' [(1, 10), (2, 12)]), (''MSFT'', sample_record ''MSFT'' [])]"

section \<open>Strings and candidates\<close>

lemma str_in_iff: "str_in p s \<longleftrightarrow> (\<exists>a b. s = a @ p @ b)"
proof (induction s)
  case Nil
  then show ?case by auto
next
  case (Cons c cs)
  have "take (length p) (c # cs) = p \<longleftrightarrow> (\<exists>b. c # cs = p @ b)"
    by (metis append_eq_conv_conj)
  moreover have "(\<exists>a b. c # cs = a @ p @ b) \<longleftrightarrow> (\<exists>b. c # cs = p @ b) \<or> (\<exists>a b. cs = a @ p @ b)"
  proof
    assume "\<exists>a b. c # cs = a @ p @ b"
    then obtain a b where ab: "c # cs = a @ p @ b" by blast
    show "(\<exists>b. c # cs = p @ b) \<or> (\<exists>a b. cs = a @ p @ b)"
    proof (cases a)
      case Nil
      with ab show ?thesis by auto
    next
      case (Cons x a')
      with ab have "cs = a' @ p @ b" by simp
      then show ?thesis by blast
    qed
  next
    assume "(\<exists>b. c # cs = p @ b) \<or> (\<exists>a b. cs = a @ p @ b)"
    then show "\<exists>a b. c # cs = a @ p @ b"
    proof
      assume "\<exists>b. c # cs = p @ b"
      then show ?thesis by (metis append_Nil)
    next
      assume "\<exists>a b. cs = a @ p @ b"
      then obtain a b where "cs = a @ p @ b" by blast
      then have "c # cs = (c # a) @ p @ b" by simp
      then show ?thesis by blast
    qed
  qed
  ultimately show ?case using Cons.IH by simp
qed

lemma endswith_append: "endswith (u @ suf) suf"
  by (simp add: endswith_def)

lemma endswith_NS_dot: "endswith u ''.NS'' \<Longrightarrow> CHR ''.'' \<in> set u"
proof -
  assume "endswith u ''.NS''"
  then have e: "take (length ''.NS'') (rev u) = rev ''.NS''"
    by (simp only: endswith_def)
  have "CHR ''.'' \<in> set (rev ''.NS'')" by simp
  then have "CHR ''.'' \<in> set (take (length ''.NS'') (rev u))" by (subst e)
  then have "CHR ''.'' \<in> set (rev u)" by (rule in_set_takeD)
  then show ?thesis by simp
qed

lemma outcome_Inl: "outcome (Inl e) = Some (Inl e)"
  by (simp add: outcome_def)

lemma outcome_Inr: "outcome (Inr (n, i, h)) = (if h = [] then None else Some (Inr (n, i, h)))"
  by (simp add: outcome_def)

lemma try_suffixes_scan:
  "try_suffixes P s sufs (tr, n, i, []) = (tr', r) \<Longrightarrow>
     scan P (map (\<lambda>x. s @ x) sufs) tr = (tr', outcome r)"
proof (induction sufs arbitrary: tr i)
  case Nil
  then show ?case by (auto simp: outcome_Inr)
next
  case (Cons suffix rest)
  show ?case
  proof (cases "P (s @ suffix)")
    case (Inl e)
    with Cons.prems show ?thesis by (auto simp: Let_def outcome_Inl)
  next
    case (Inr ih)
    obtain i' h' where ih: "ih = (i', h')" by (cases ih) auto
    show ?thesis
    proof (cases "h' = []")
      case True
      with Cons.prems Inr ih have "try_suffixes P s rest (tr @ [s @ suffix], n, i', []) = (tr', r)"
        by (simp add: Let_def)
      from Cons.IH [OF this] show ?thesis using Inr ih True by simp
    next
      case False
      with Cons.prems Inr ih show ?thesis by (auto simp: Let_def outcome_Inr)
    qed
  qed
qed

lemma try_bse_skip:
  "\<not> (h = [] \<and> endswith n ''.NS'') \<Longrightarrow> try_bse P s (tr, n, i, h) = (tr, Inr (n, i, h))"
  by (auto simp: try_bse_def)

lemma try_bse_go:
  "endswith n ''.NS'' \<Longrightarrow>
     try_bse P s (tr, n, i, []) =
       (case P (s @ ''.BO'') of
          Inl e \<Rightarrow> (tr @ [s @ ''.BO''], Inl e)
        | Inr (i', h') \<Rightarrow> (tr @ [s @ ''.BO''], Inr (s @ ''.BO'', i', h')))"
  by (simp add: try_bse_def Let_def)

lemma try_indian_skip:
  "\<not> (h = [] \<and> CHR ''.'' \<notin> set n) \<Longrightarrow> try_indian P s (tr, n, i, h) = (tr, Inr (n, i, h))"
  by (auto simp: try_indian_def)

lemma try_indian_go:
  "CHR ''.'' \<notin> set n \<Longrightarrow>
     try_indian P s (tr, n, i, []) = try_suffixes P s [''.NS'', ''.BO''] (tr, n, i, [])"
  by (simp add: try_indian_def)

lemma resolve_scan:
  assumes "resolve P s = (tr, r)"
  shows "scan P (candidates_of s) [] = (tr, outcome r)"
proof -
  define n0 where "n0 = normalize_symbol s"
  show ?thesis
  proof (cases "P n0")
    case (Inl e)
    with assms have "tr = [n0]" "r = Inl e"
      by (simp_all add: resolve_def n0_def [symmetric])
    with Inl show ?thesis
      by (simp add: candidates_of_def n0_def [symmetric] outcome_Inl)
  next
    case (Inr ih)
    obtain i h where ih: "ih = (i, h)" by (cases ih) auto
    have res: "resolve P s =
        (case try_bse P s ([n0], n0, i, h) of
           (tried, Inl e) \<Rightarrow> (tried, Inl e)
         | (tried, Inr st) \<Rightarrow> try_indian P s (tried, st))"
      using Inr ih by (simp add: resolve_def n0_def [symmetric])
    show ?thesis
    proof (cases "h = []")
      case False
      then have "resolve P s = ([n0], Inr (n0, i, h))"
        by (simp add: res try_bse_skip try_indian_skip)
      with assms have "tr = [n0]" "r = Inr (n0, i, h)" by simp_all
      with Inr ih False show ?thesis
        by (simp add: candidates_of_def n0_def [symmetric] outcome_Inr)
    next
      case True
      show ?thesis
      proof (cases "endswith n0 ''.NS''")
        case ends: True
        have cs: "candidates_of s = [n0, s @ ''.BO'']"
          using ends by (simp add: candidates_of_def n0_def [symmetric])
        show ?thesis
        proof (cases "P (s @ ''.BO'')")
          case bo: (Inl e)
          have "resolve P s = ([n0, s @ ''.BO''], Inl e)"
            by (simp add: res True try_bse_go [OF ends] bo)
          with assms have "tr = [n0, s @ ''.BO'']" "r = Inl e" by simp_all
          then show ?thesis using Inr ih True bo by (simp add: cs outcome_Inl)
        next
          case bo: (Inr ih')
          obtain i' h' where ih': "ih' = (i', h')" by (cases ih') auto
          have "resolve P s = ([n0, s @ ''.BO''], Inr (s @ ''.BO'', i', h'))"
            by (simp add: res True try_bse_go [OF ends] bo ih' try_indian_skip)
          with assms have "tr = [n0, s @ ''.BO'']" "r = Inr (s @ ''.BO'', i', h')" by simp_all
          then show ?thesis using Inr ih True bo ih' by (simp add: cs outcome_Inr)
        qed
      next
        case noends: False
        show ?thesis
        proof (cases "CHR ''.'' \<in> set n0")
          case dot: True
          have "resolve P s = ([n0], Inr (n0, i, h))"
            using noends dot by (simp add: res try_bse_skip try_indian_skip)
          with assms have "tr = [n0]" "r = Inr (n0, i, h)" by simp_all
          then show ?thesis using Inr ih True noends dot
            by (simp add: candidates_of_def n0_def [symmetric] outcome_Inr)
        next
          case nodot: False
          have cs: "candidates_of s = n0 # map (\<lambda>x. s @ x) [''.NS'', ''.BO'']"
            using noends nodot by (simp add: candidates_of_def n0_def [symmetric])
          have "resolve P s = try_suffixes P s [''.NS'', ''.BO''] ([n0], n0, i, [])"
            using noends nodot True by (simp add: res try_bse_skip try_indian_go)
          with assms have "try_suffixes P s [''.NS'', ''.BO''] ([n0], n0, i, []) = (tr, r)"
            by simp
          from try_suffixes_scan [OF this]
          have "scan P (map (\<lambda>x. s @ x) [''.NS'', ''.BO'']) [n0] = (tr, outcome r)" .
          then show ?thesis using Inr ih True unfolding cs by simp
        qed
      qed
    qed
  qed
qed

lemma scan_no_data: "scan no_data cs tr = (tr @ cs, None)"
  by (induction cs arbitrary: tr) (simp_all add: no_data_def)

lemma candidates_eq: "candidates s = candidates_of s"
proof -
  obtain tr r where res: "resolve no_data s = (tr, r)" by (cases "resolve no_data s") auto
  from resolve_scan [OF res] have "tr = candidates_of s" by (simp add: scan_no_data)
  with res show ?thesis by (simp add: candidates_def requested_def)
qed

lemma requested_scan: "requested P s = fst (scan P (candidates s) [])"
proof -
  obtain tr r where res: "resolve P s = (tr, r)" by (cases "resolve P s") auto
  from resolve_scan [OF res] res show ?thesis
    by (simp add: requested_def candidates_eq)
qed

lemma get_stock_info_outcome: "get_stock_info P pf s = finish pf s (outcome (snd (resolve P s)))"
proof (cases "snd (resolve P s)")
  case (Inl e)
  then show ?thesis by (simp add: get_stock_info_def finish_def outcome_Inl)
next
  case (Inr st)
  obtain n i h where st: "st = (n, i, h)" by (cases st) auto
  show ?thesis unfolding get_stock_info_def finish_def Inr st outcome_Inr by simp
qed

lemma get_stock_info_scan: "get_stock_info P pf s = finish pf s (snd (scan P (candidates s) []))"
proof -
  obtain tr r where res: "resolve P s = (tr, r)" by (cases "resolve P s") auto
  from resolve_scan [OF res] res show ?thesis
    by (simp add: get_stock_info_outcome candidates_eq)
qed

lemma scan_skip:
  "\<forall>x\<in>set pre. \<exists>i. P x = Inr (i, []) \<Longrightarrow> scan P (pre @ cs) tr = scan P cs (tr @ pre)"
  by (induction pre arbitrary: tr) auto

lemma scan_data:
  assumes "\<forall>x\<in>set pre. \<exists>i. P x = Inr (i, [])" and "P c = Inr (info, hist)" and "hist \<noteq> []"
  shows "scan P (pre @ c # post) [] = (pre @ [c], Some (Inr (c, info, hist)))"
  using assms by (simp add: scan_skip)

lemma scan_raise:
  assumes "\<forall>x\<in>set pre. \<exists>i. P x = Inr (i, [])" and "P c = Inl e"
  shows "scan P (pre @ c # post) [] = (pre @ [c], Some (Inl e))"
  using assms by (simp add: scan_skip)

lemma scan_SomeD:
  "scan P cs tr = (tr', Some (Inr (c, i, h))) \<Longrightarrow> c \<in> set cs \<and> P c = Inr (i, h) \<and> h \<noteq> []"
  by (induction cs arbitrary: tr) (auto split: sum.splits prod.splits if_splits)

lemma candidates_cases:
  "candidates s =
     (let u = strip (upper s) in
      if CHR ''.'' \<in> set u then (if endswith u ''.NS'' then [u, s @ ''.BO''] else [u])
      else if matches_indian u \<or> length u > 6 then [u @ ''.NS'', s @ ''.BO'']
      else [u, s @ ''.NS'', s @ ''.BO''])"
proof -
  define u where "u = strip (upper s)"
  have n: "normalize_symbol s =
      (if CHR ''.'' \<in> set u then u
       else if matches_indian u \<or> length u > 6 then u @ ''.NS'' else u)"
    by (simp add: normalize_symbol_def u_def Let_def)
  show ?thesis
  proof (cases "CHR ''.'' \<in> set u")
    case True
    then show ?thesis
      by (simp add: candidates_eq candidates_of_def n u_def [symmetric] Let_def)
  next
    case False
    then have ne: "\<not> endswith u ''.NS''" using endswith_NS_dot by blast
    show ?thesis
    proof (cases "matches_indian u \<or> length u > 6")
      case True
      with False have "normalize_symbol s = u @ ''.NS''" by (simp add: n)
      then show ?thesis using False True
        by (simp add: candidates_eq candidates_of_def u_def [symmetric] Let_def endswith_append)
    next
      case nb: False
      with False have "normalize_symbol s = u" by (simp add: n)
      then show ?thesis using False nb ne
        by (simp add: candidates_eq candidates_of_def u_def [symmetric] Let_def)
    qed
  qed
qed

lemmas eval_defs = candidates_eq candidates_of_def normalize_symbol_def strip_def upper_def
  upper_char_def isspace_def matches_indian_def indian_patterns_def endswith_def Let_def

lemma make_stock_data_fields:
  assumes "make_stock_data pf s c info hist = Inr r"
  shows "symbol r = s" and "normalized_symbol r = c"
    and "price_history r = map (\<lambda>b. (Date b, Close b)) hist"
    and "six_month_change r = six_month_change_of hist"
    and "dividend_yield r = percent_field info ''dividendYield''"
    and "roe r = percent_field info ''returnOnEquity''"
    and "current_price_of pf info hist = Inr (current_price r)"
  using assms by (auto simp: make_stock_data_def split: sum.splits)

lemma finish_data:
  "finish pf s (Some (Inr (c, info, hist))) =
     (case make_stock_data pf s c info hist of Inl e \<Rightarrow> None | Inr r \<Rightarrow> Some r)"
  by (simp add: finish_def)

lemma finish_raise: "finish pf s (Some (Inl e)) = None"
  by (simp add: finish_def)

lemma upper_char_dot: "upper_char ch = CHR ''.'' \<Longrightarrow> ch = CHR ''.''"
  by (cases ch) (simp add: upper_char_def split: if_splits)

lemma strip_upper_dot: "CHR ''.'' \<in> set (strip (upper s)) \<Longrightarrow> CHR ''.'' \<in> set s"
proof -
  assume a: "CHR ''.'' \<in> set (strip (upper s))"
  have "set (strip (upper s)) \<subseteq> set (upper s)"
    unfolding strip_def by (metis set_dropWhileD set_rev subsetI)
  with a have "CHR ''.'' \<in> set (upper s)" by blast
  then obtain ch where ch: "ch \<in> set s" "upper_char ch = CHR ''.''"
    by (auto simp: upper_def)
  from upper_char_dot [OF ch(2)] ch(1) show ?thesis by simp
qed

section \<open>Claims about symbol resolution\<close>

text \<open>
  Claim C4, as stated: after uppercasing and trimming, an input with a \<open>.\<close> is the
  sole candidate; a member of the Indian-ticker list, or an input longer than 6
  characters, gets \<open>.NS\<close> first and then \<open>.BO\<close>; any other input is tried bare
  first, then with \<open>.NS\<close> and \<open>.BO\<close>.  It fails for \<open>ABBV\<close>: not a member of the
  list, four characters long, without a \<open>.\<close>, and yet never tried bare, because the
  list entry \<open>ABB\<close> occurs in it.
\<close>

theorem candidates_membership_counterexample:
  "''ABBV'' \<notin> set indian_patterns \<and> \<not> length ''ABBV'' > 6 \<and> CHR ''.'' \<notin> set ''ABBV'' \<and>
   strip (upper ''ABBV'') = ''ABBV'' \<and>
   candidates ''ABBV'' = [''ABBV.NS'', ''ABBV.BO''] \<and>
   candidates ''ABBV'' \<noteq> [''ABBV'', ''ABBV.NS'', ''ABBV.BO'']"
  by (simp add: eval_defs)

text \<open>
  Claim C4, amended.  Let \<open>u\<close> be the input uppercased and trimmed.  If \<open>u\<close> has a
  \<open>.\<close>, it is the first candidate, unchanged, and it is the sole candidate unless it
  ends in \<open>.NS\<close>.  If \<open>u\<close> has no \<open>.\<close>, the first candidate is \<open>u.NS\<close> when some
  entry of the Indian-ticker list occurs in \<open>u\<close> as a substring or \<open>u\<close> is longer
  than 6 characters, and \<open>u\<close> otherwise; and for an input that is already uppercase
  and trimmed the candidates are \<open>u.NS, u.BO\<close> in the first case and
  \<open>u, u.NS, u.BO\<close> in the second.
\<close>

theorem candidates_order:
  assumes "u = strip (upper s)"
  shows
    "(CHR ''.'' \<in> set u \<longrightarrow>
        hd (candidates s) = u \<and> (\<not> endswith u ''.NS'' \<longrightarrow> candidates s = [u])) \<and>
     (CHR ''.'' \<notin> set u \<longrightarrow>
        hd (candidates s) =
          (if (\<exists>p\<in>set indian_patterns. \<exists>a b. u = a @ p @ b) \<or> length u > 6
           then u @ ''.NS'' else u) \<and>
        (s = u \<longrightarrow>
           candidates s =
             (if (\<exists>p\<in>set indian_patterns. \<exists>a b. u = a @ p @ b) \<or> length u > 6
              then [u @ ''.NS'', u @ ''.BO'']
              else [u, u @ ''.NS'', u @ ''.BO''])))"
proof -
  have m: "matches_indian u \<longleftrightarrow> (\<exists>p\<in>set indian_patterns. \<exists>a b. u = a @ p @ b)"
    by (simp add: matches_indian_def list_ex_iff str_in_iff)
  have c: "candidates s =
     (if CHR ''.'' \<in> set u then (if endswith u ''.NS'' then [u, s @ ''.BO''] else [u])
      else if matches_indian u \<or> length u > 6 then [u @ ''.NS'', s @ ''.BO'']
      else [u, s @ ''.NS'', s @ ''.BO''])"
    unfolding assms by (simp add: candidates_cases Let_def)
  show ?thesis
    unfolding m [symmetric] c by auto
qed

theorem candidates_order_witness:
  "candidates ''BRK.B'' = [''BRK.B''] \<and>
   candidates ''RELIANCE'' = [''RELIANCE.NS'', ''RELIANCE.BO''] \<and>
   candidates ''AAPL'' = [''AAPL'', ''AAPL.NS'', ''AAPL.BO'']"
proof -
  have 1: "''BRK.B'' = strip (upper ''BRK.B'')" "''RELIANCE'' = strip (upper ''RELIANCE'')"
    "''AAPL'' = strip (upper ''AAPL'')"
    by (simp_all add: strip_def upper_def upper_char_def isspace_def)
  have 2: "CHR ''.'' \<in> set ''BRK.B''" "\<not> endswith ''BRK.B'' ''.NS''"
    "CHR ''.'' \<notin> set ''RELIANCE''" "length ''RELIANCE'' > 6"
    "CHR ''.'' \<notin> set ''AAPL''" "\<not> length ''AAPL'' > 6"
    by (simp_all add: endswith_def)
  have 3: "\<not> (\<exists>p\<in>set indian_patterns. \<exists>a b. ''AAPL'' = a @ p @ b)"
    unfolding str_in_iff [symmetric] by (simp add: indian_patterns_def)
  from candidates_order [OF 1(1)] 2 have c1: "candidates ''BRK.B'' = [''BRK.B'']"
    by simp
  from candidates_order [OF 1(2)] 2
  have c2: "candidates ''RELIANCE'' = [''RELIANCE.NS'', ''RELIANCE.BO'']"
    by simp
  from candidates_order [OF 1(3)] 2 3
  have c3: "candidates ''AAPL'' = [''AAPL'', ''AAPL.NS'', ''AAPL.BO'']"
    by simp
  from c1 c2 c3 show ?thesis by simp
qed

text \<open>
  Two behaviours of the code outside that statement: the alternates are built from
  the raw input, not from its uppercased and trimmed form, and an input that ends
  in \<open>.NS\<close> gets the raw input with \<open>.BO\<close> appended as a second candidate.
\<close>

lemma alternates_from_raw_input:
  "candidates '' aapl'' = [''AAPL'', '' aapl.NS'', '' aapl.BO'']"
  by (simp add: eval_defs)

lemma suffixed_input_second_candidate:
  "candidates ''TCS.NS'' = [''TCS.NS'', ''TCS.NS.BO'']"
  by (simp add: eval_defs)

text \<open>
  Claim C10: an input without a \<open>.\<close> whose uppercased, trimmed form contains an
  entry of the Indian-ticker list as a substring is normalised to that form with
  \<open>.NS\<close> appended, which is the first candidate: also when the form is no list entry
  itself and has at most 6 characters, as \<open>ALTR\<close>, which contains \<open>LT\<close>.
\<close>

theorem substring_match_gets_NS:
  assumes "CHR ''.'' \<notin> set s" and "p \<in> set indian_patterns"
    and "strip (upper s) = a @ p @ b"
  shows "normalize_symbol s = strip (upper s) @ ''.NS'' \<and>
         hd (candidates s) = strip (upper s) @ ''.NS''"
proof -
  have nodot: "CHR ''.'' \<notin> set (strip (upper s))"
    using assms(1) strip_upper_dot by blast
  have "str_in p (strip (upper s))" unfolding str_in_iff using assms(3) by blast
  with assms(2) have m: "matches_indian (strip (upper s))"
    by (auto simp: matches_indian_def list_ex_iff)
  from nodot m have n: "normalize_symbol s = strip (upper s) @ ''.NS''"
    by (simp add: normalize_symbol_def Let_def)
  then show ?thesis by (simp add: candidates_eq candidates_of_def Let_def)
qed

theorem substring_match_gets_NS_witness:
  "CHR ''.'' \<notin> set ''ALTR'' \<and> ''LT'' \<in> set indian_patterns \<and> ''ALTR'' \<notin> set indian_patterns \<and>
   length ''ALTR'' \<le> 6 \<and> strip (upper ''ALTR'') = ''A'' @ ''LT'' @ ''R'' \<and>
   normalize_symbol ''ALTR'' = ''ALTR.NS'' \<and> hd (candidates ''ALTR'') = ''ALTR.NS''"
proof -
  have 1: "CHR ''.'' \<notin> set ''ALTR''" by simp
  have 2: "''LT'' \<in> set indian_patterns" by (simp add: indian_patterns_def)
  have 3: "strip (upper ''ALTR'') = ''A'' @ ''LT'' @ ''R''"
    by (simp add: strip_def upper_def upper_char_def isspace_def)
  have 4: "''ALTR'' \<notin> set indian_patterns" by (simp add: indian_patterns_def)
  from substring_match_gets_NS [OF 1 2 3] 1 2 3 4 show ?thesis by simp
qed

section \<open>Claims about fetching\<close>

text \<open>
  Claim C5: when the candidates before \<open>c\<close> all have an empty history and \<open>c\<close> has
  a non-empty one, exactly the candidates up to \<open>c\<close> are requested, and the result is
  the record built from the raw symbol, \<open>c\<close> and the snapshot and history of \<open>c\<close>
  alone: its resolved symbol is \<open>c\<close> and its price history is the closes of that
  history.  The witness is a symbol whose third candidate is the first with data.
\<close>

theorem first_candidate_with_data_accepted:
  assumes "candidates s = pre @ c # post"
    and "\<forall>x\<in>set pre. \<exists>i. P x = Inr (i, [])"
    and "P c = Inr (info, hist)" and "hist \<noteq> []"
  shows "requested P s = pre @ [c] \<and>
         get_stock_info P pf s =
           (case make_stock_data pf s c info hist of Inl e \<Rightarrow> None | Inr r \<Rightarrow> Some r) \<and>
         (\<forall>r. get_stock_info P pf s = Some r \<longrightarrow>
            normalized_symbol r = c \<and> price_history r = map (\<lambda>b. (Date b, Close b)) hist)"
proof -
  have sc: "scan P (candidates s) [] = (pre @ [c], Some (Inr (c, info, hist)))"
    unfolding assms(1) using assms(2-4) by (rule scan_data)
  have 1: "requested P s = pre @ [c]"
    by (simp add: requested_scan sc)
  have 2: "get_stock_info P pf s =
      (case make_stock_data pf s c info hist of Inl e \<Rightarrow> None | Inr r \<Rightarrow> Some r)"
    by (simp add: get_stock_info_scan sc finish_data)
  have 3: "normalized_symbol r = c \<and> price_history r = map (\<lambda>b. (Date b, Close b)) hist"
    if "get_stock_info P pf s = Some r" for r
  proof -
    from that 2 have "make_stock_data pf s c info hist = Inr r"
      by (simp split: sum.splits)
    then show ?thesis by (simp add: make_stock_data_fields)
  qed
  from 1 2 3 show ?thesis by blast
qed

theorem first_candidate_with_data_accepted_witness:
  "candidates ''AAPL'' = [''AAPL'', ''AAPL.NS'', ''AAPL.BO''] \<and>
   requested bombay_only ''AAPL'' = [''AAPL'', ''AAPL.NS'', ''AAPL.BO''] \<and>
   (\<exists>r. get_stock_info bombay_only no_parse ''AAPL'' = Some r \<and>
        normalized_symbol r = ''AAPL.BO'' \<and> price_history r = [(1, 10), (2, 12)])"
proof -
  have c: "candidates ''AAPL'' = [''AAPL'', ''AAPL.NS''] @ ''AAPL.BO'' # []"
    by (simp add: eval_defs)
  have e: "\<forall>x\<in>set [''AAPL'', ''AAPL.NS'']. \<exists>i. bombay_only x = Inr (i, [])"
    by (simp add: bombay_only_def)
  have d: "bombay_only ''AAPL.BO'' = Inr (sample_info, two_days)"
    by (simp add: bombay_only_def)
  have n: "two_days \<noteq> []" by (simp add: two_days_def)
  have m: "\<exists>r. make_stock_data no_parse ''AAPL'' ''AAPL.BO'' sample_info two_days = Inr r"
    by (simp add: make_stock_data_def current_price_of_def sample_info_def dict_get_def)
  then obtain r0 where r0: "make_stock_data no_parse ''AAPL'' ''AAPL.BO'' sample_info two_days = Inr r0"
    by blast
  from first_candidate_with_data_accepted [OF c e d n, of no_parse] r0
  have "requested bombay_only ''AAPL'' = [''AAPL'', ''AAPL.NS'', ''AAPL.BO'']"
    and "get_stock_info bombay_only no_parse ''AAPL'' = Some r0"
    and "normalized_symbol r0 = ''AAPL.BO''"
    and "price_history r0 = map (\<lambda>b. (Date b, Close b)) two_days"
    by simp_all
  then show ?thesis using c by (simp add: two_days_def)
qed

text \<open>
  Claim C6, as stated: a candidate that raises is treated as a candidate without
  data, and the next candidate is tried.  It fails for \<open>AAPL\<close> when the bare ticker
  raises and \<open>AAPL.NS\<close> has data: nothing more is requested and there is no record,
  whereas with an empty history for the bare ticker \<open>AAPL.NS\<close> is requested and
  gives the record.
\<close>

theorem failure_not_skipped_counterexample:
  "candidates ''AAPL'' = [''AAPL'', ''AAPL.NS'', ''AAPL.BO''] \<and>
   flaky ''AAPL'' = Inl UpstreamError \<and>
   requested flaky ''AAPL'' = [''AAPL''] \<and>
   get_stock_info flaky no_parse ''AAPL'' = None \<and>
   quiet ''AAPL'' = Inr (Map.empty, []) \<and>
   flaky ''AAPL.NS'' = quiet ''AAPL.NS'' \<and>
   requested quiet ''AAPL'' = [''AAPL'', ''AAPL.NS''] \<and>
   get_stock_info quiet no_parse ''AAPL'' \<noteq> None"
proof -
  have c: "candidates ''AAPL'' = [''AAPL'', ''AAPL.NS'', ''AAPL.BO'']"
    by (simp add: eval_defs)
  have f: "scan flaky [''AAPL'', ''AAPL.NS'', ''AAPL.BO''] [] = ([''AAPL''], Some (Inl UpstreamError))"
    by (simp add: flaky_def)
  have q: "scan quiet [''AAPL'', ''AAPL.NS'', ''AAPL.BO''] [] =
      ([''AAPL'', ''AAPL.NS''], Some (Inr (''AAPL.NS'', sample_info, two_days)))"
    by (simp add: quiet_def two_days_def)
  have m: "\<exists>r. make_stock_data no_parse ''AAPL'' ''AAPL.NS'' sample_info two_days = Inr r"
    by (simp add: make_stock_data_def current_price_of_def sample_info_def dict_get_def)
  have 1: "requested flaky ''AAPL'' = [''AAPL'']"
    unfolding requested_scan c f by simp
  have 2: "get_stock_info flaky no_parse ''AAPL'' = None"
    unfolding get_stock_info_scan c f by (simp add: finish_raise)
  have 3: "requested quiet ''AAPL'' = [''AAPL'', ''AAPL.NS'']"
    unfolding requested_scan c q by simp
  have 4: "get_stock_info quiet no_parse ''AAPL'' \<noteq> None"
    unfolding get_stock_info_scan c q using m by (auto simp: finish_data)
  have 5: "flaky ''AAPL'' = Inl UpstreamError" "quiet ''AAPL'' = Inr (Map.empty, [])"
    "flaky ''AAPL.NS'' = quiet ''AAPL.NS''"
    by (simp_all add: flaky_def quiet_def)
  from c 1 2 3 4 5 show ?thesis by simp
qed

text \<open>
  Claim C6, amended: when the candidates before \<open>c\<close> all have an empty history and
  the request for \<open>c\<close> raises, the fetch of the symbol ends there: no later candidate
  is requested and the result is \<open>None\<close>.
\<close>

theorem upstream_failure_ends_fetch:
  assumes "candidates s = pre @ c # post"
    and "\<forall>x\<in>set pre. \<exists>i. P x = Inr (i, [])"
    and "P c = Inl e"
  shows "requested P s = pre @ [c] \<and> get_stock_info P pf s = None"
proof -
  have sc: "scan P (candidates s) [] = (pre @ [c], Some (Inl e))"
    unfolding assms(1) using assms(2,3) by (rule scan_raise)
  show ?thesis by (simp add: requested_scan get_stock_info_scan sc finish_raise)
qed

theorem upstream_failure_ends_fetch_witness:
  "candidates ''AAPL'' = [] @ ''AAPL'' # [''AAPL.NS'', ''AAPL.BO''] \<and>
   flaky ''AAPL'' = Inl UpstreamError \<and>
   requested flaky ''AAPL'' = [''AAPL''] \<and> get_stock_info flaky no_parse ''AAPL'' = None"
proof -
  have c: "candidates ''AAPL'' = [] @ ''AAPL'' # [''AAPL.NS'', ''AAPL.BO'']"
    by (simp add: eval_defs)
  have e: "\<forall>x\<in>set []. \<exists>i. flaky x = Inr (i, [])" by simp
  have f: "flaky ''AAPL'' = Inl UpstreamError" by (simp add: flaky_def)
  from upstream_failure_ends_fetch [OF c e f, of no_parse] c f show ?thesis by simp
qed

lemma finish_SomeD:
  "finish pf s res = Some r \<Longrightarrow>
     \<exists>c i h. res = Some (Inr (c, i, h)) \<and> make_stock_data pf s c i h = Inr r"
  by (auto simp: finish_def split: option.splits sum.splits prod.splits)

lemma get_stock_info_SomeD:
  assumes "get_stock_info P pf s = Some r"
  shows "\<exists>info hist. P (normalized_symbol r) = Inr (info, hist) \<and> hist \<noteq> [] \<and>
           make_stock_data pf s (normalized_symbol r) info hist = Inr r \<and>
           normalized_symbol r \<in> set (candidates s)"
proof -
  obtain tr res where sc: "scan P (candidates s) [] = (tr, res)"
    by (cases "scan P (candidates s) []") auto
  from assms have "finish pf s res = Some r" by (simp add: get_stock_info_scan sc)
  then obtain c i h where res: "res = Some (Inr (c, i, h))"
    and mk: "make_stock_data pf s c i h = Inr r"
    using finish_SomeD by blast
  from sc res have "c \<in> set (candidates s) \<and> P c = Inr (i, h) \<and> h \<noteq> []"
    using scan_SomeD by blast
  moreover from mk have "normalized_symbol r = c" by (rule make_stock_data_fields)
  ultimately show ?thesis using mk by auto
qed

lemma get_stock_info_fields:
  assumes "get_stock_info P pf s = Some r" and "P (normalized_symbol r) = Inr (info, hist)"
  shows "hist \<noteq> []" and "make_stock_data pf s (normalized_symbol r) info hist = Inr r"
  using get_stock_info_SomeD [OF assms(1)] assms(2) by auto

lemma sample_fetch:
  "\<exists>r. get_stock_info bombay_only no_parse ''AAPL'' = Some r \<and> normalized_symbol r = ''AAPL.BO''"
proof -
  have c: "candidates ''AAPL'' = [''AAPL'', ''AAPL.NS'', ''AAPL.BO'']"
    by (simp add: eval_defs)
  have sc: "scan bombay_only [''AAPL'', ''AAPL.NS'', ''AAPL.BO''] [] =
      ([''AAPL'', ''AAPL.NS'', ''AAPL.BO''], Some (Inr (''AAPL.BO'', sample_info, two_days)))"
    by (simp add: bombay_only_def two_days_def)
  have "\<exists>r. make_stock_data no_parse ''AAPL'' ''AAPL.BO'' sample_info two_days = Inr r"
    by (simp add: make_stock_data_def current_price_of_def sample_info_def dict_get_def)
  then obtain r where r: "make_stock_data no_parse ''AAPL'' ''AAPL.BO'' sample_info two_days = Inr r"
    by blast
  have "get_stock_info bombay_only no_parse ''AAPL'' = Some r"
    unfolding get_stock_info_scan c sc by (simp add: finish_data r)
  moreover from r have "normalized_symbol r = ''AAPL.BO''" by (rule make_stock_data_fields)
  ultimately show ?thesis by blast
qed

lemma both_days_fetch:
  "\<exists>r. get_stock_info both_days no_parse ''AAPL'' = Some r \<and> normalized_symbol r = ''AAPL''"
proof -
  have c: "candidates ''AAPL'' = [''AAPL'', ''AAPL.NS'', ''AAPL.BO'']"
    by (simp add: eval_defs)
  have sc: "scan both_days [''AAPL'', ''AAPL.NS'', ''AAPL.BO''] [] =
      ([''AAPL''], Some (Inr (''AAPL'', Map.empty, two_days)))"
    by (simp add: both_days_def two_days_def)
  have "\<exists>r. make_stock_data no_parse ''AAPL'' ''AAPL'' Map.empty two_days = Inr r"
    by (simp add: make_stock_data_def current_price_of_def dict_get_def two_days_def)
  then obtain r where r: "make_stock_data no_parse ''AAPL'' ''AAPL'' Map.empty two_days = Inr r"
    by blast
  have "get_stock_info both_days no_parse ''AAPL'' = Some r"
    unfolding get_stock_info_scan c sc by (simp add: finish_data r)
  moreover from r have "normalized_symbol r = ''AAPL''" by (rule make_stock_data_fields)
  ultimately show ?thesis by blast
qed

section \<open>Claims about the record\<close>

text \<open>
  Claim C1: in a record returned by \<open>get_stock_info\<close> the price history holds the
  closes of the accepted ticker's history and is not empty.  With at least two
  closes and a first close other than zero, the 6-month change is
  \<open>(last - first) / first * 100\<close> of the first and last close; with a first close
  of zero the division yields no finite number; with a single close the change is
  \<open>0\<close>.  A history without rows gives no record; the computation of lines 75-79
  by itself yields \<open>0\<close> for every history of fewer than two rows.
\<close>

theorem six_month_change_formula:
  assumes "get_stock_info P pf s = Some r" and "closes = map snd (price_history r)"
  shows "closes \<noteq> [] \<and>
         (\<forall>info hist. P (normalized_symbol r) = Inr (info, hist) \<longrightarrow> closes = map Close hist) \<and>
         (2 \<le> length closes \<and> hd closes \<noteq> 0 \<longrightarrow>
            six_month_change r = Fin ((last closes - hd closes) / hd closes * 100)) \<and>
         (2 \<le> length closes \<and> hd closes = 0 \<longrightarrow> (\<forall>x. six_month_change r \<noteq> Fin x)) \<and>
         (length closes < 2 \<longrightarrow> six_month_change r = Fin 0) \<and>
         (\<forall>h. length h < 2 \<longrightarrow> six_month_change_of h = Fin 0)"
proof -
  from get_stock_info_SomeD [OF assms(1)] obtain info hist where
    P: "P (normalized_symbol r) = Inr (info, hist)" and ne: "hist \<noteq> []"
    and mk: "make_stock_data pf s (normalized_symbol r) info hist = Inr r"
    by blast
  have cl: "closes = map Close hist"
    by (simp add: assms(2) make_stock_data_fields(3) [OF mk] comp_def)
  have smc: "six_month_change r = six_month_change_of hist"
    using mk by (rule make_stock_data_fields)
  have hd: "hd closes = Close (hd hist)" using ne by (simp add: cl hd_map)
  have last: "last closes = Close (last hist)" using ne by (simp add: cl last_map)
  have len: "length closes = length hist" by (simp add: cl)
  have 1: "closes \<noteq> []" using ne by (simp add: cl)
  have 2: "\<forall>info' hist'. P (normalized_symbol r) = Inr (info', hist') \<longrightarrow> closes = map Close hist'"
    using P cl by simp
  have 3: "2 \<le> length closes \<and> hd closes \<noteq> 0 \<longrightarrow>
            six_month_change r = Fin ((last closes - hd closes) / hd closes * 100)"
    by (simp add: smc six_month_change_of_def np_div_def hd last len)
  have 4: "2 \<le> length closes \<and> hd closes = 0 \<longrightarrow> (\<forall>x. six_month_change r \<noteq> Fin x)"
    by (simp add: smc six_month_change_of_def np_div_def hd last len)
  have 5: "length closes < 2 \<longrightarrow> six_month_change r = Fin 0"
    by (simp add: smc six_month_change_of_def len)
  have 6: "\<forall>h. length h < 2 \<longrightarrow> six_month_change_of h = Fin 0"
    by (simp add: six_month_change_of_def)
  from 1 2 3 4 5 6 show ?thesis by blast
qed

theorem six_month_change_formula_witness:
  "\<exists>r. get_stock_info bombay_only no_parse ''AAPL'' = Some r \<and>
       map snd (price_history r) = [10, 12] \<and> six_month_change r = Fin 20"
proof -
  from sample_fetch obtain r where r: "get_stock_info bombay_only no_parse ''AAPL'' = Some r"
    and n: "normalized_symbol r = ''AAPL.BO''" by blast
  have P: "bombay_only (normalized_symbol r) = Inr (sample_info, two_days)"
    by (simp add: n bombay_only_def)
  from six_month_change_formula [OF r refl] P have cl: "map snd (price_history r) = map Close two_days"
    by blast
  then have cl': "map snd (price_history r) = [10, 12]" by (simp add: two_days_def)
  from six_month_change_formula [OF r refl] have smc: "six_month_change r = Fin 20"
    unfolding cl' by simp
  show ?thesis by (rule exI [of _ r]) (simp add: r cl' smc)
qed

lemma percent_field_num:
  "info k = Some (PNum x) \<Longrightarrow> x \<noteq> 0 \<Longrightarrow> percent_field info k = PNum (x * 100)"
  by (simp add: percent_field_def dict_get_def get_default_def)

lemma percent_field_unavailable:
  "info k \<in> {None, Some PNone, Some (PNum 0)} \<Longrightarrow> percent_field info k = PNone"
  by (auto simp: percent_field_def dict_get_def)

text \<open>
  Claim C7: the dividend yield and the return on equity of a record are the
  provider's numbers times 100; when the provider's value is missing, \<open>None\<close> or
  zero, the field is \<open>None\<close>, which is not the number \<open>0\<close>.  The witness has the
  provider's \<open>0.025\<close> shown as \<open>2.5\<close>.
\<close>

theorem percent_fields_scaled:
  assumes "get_stock_info P pf s = Some r" and "P (normalized_symbol r) = Inr (info, hist)"
  shows "(\<forall>x. info ''dividendYield'' = Some (PNum x) \<and> x \<noteq> 0 \<longrightarrow> dividend_yield r = PNum (x * 100)) \<and>
         (info ''dividendYield'' \<in> {None, Some PNone, Some (PNum 0)} \<longrightarrow> dividend_yield r = PNone) \<and>
         (\<forall>x. info ''returnOnEquity'' = Some (PNum x) \<and> x \<noteq> 0 \<longrightarrow> roe r = PNum (x * 100)) \<and>
         (info ''returnOnEquity'' \<in> {None, Some PNone, Some (PNum 0)} \<longrightarrow> roe r = PNone) \<and>
         PNone \<noteq> PNum 0"
proof -
  have mk: "make_stock_data pf s (normalized_symbol r) info hist = Inr r"
    using assms by (rule get_stock_info_fields)
  have d: "dividend_yield r = percent_field info ''dividendYield''"
    using mk by (rule make_stock_data_fields)
  have e: "roe r = percent_field info ''returnOnEquity''"
    using mk by (rule make_stock_data_fields)
  show ?thesis
    unfolding d e using percent_field_num percent_field_unavailable by blast
qed

theorem percent_fields_scaled_witness:
  "\<exists>r. get_stock_info bombay_only no_parse ''AAPL'' = Some r \<and>
       dividend_yield r = PNum (5 / 2) \<and> roe r = PNone"
proof -
  from sample_fetch obtain r where r: "get_stock_info bombay_only no_parse ''AAPL'' = Some r"
    and n: "normalized_symbol r = ''AAPL.BO''" by blast
  have P: "bombay_only (normalized_symbol r) = Inr (sample_info, two_days)"
    by (simp add: n bombay_only_def)
  have 1: "sample_info ''dividendYield'' = Some (PNum (1 / 40)) \<and> (1 / 40 :: real) \<noteq> 0"
    by (simp add: sample_info_def)
  have 2: "sample_info ''returnOnEquity'' \<in> {None, Some PNone, Some (PNum 0)}"
    by (simp add: sample_info_def)
  from percent_fields_scaled [OF r P] 1 have "dividend_yield r = PNum (1 / 40 * 100)" by blast
  then have d: "dividend_yield r = PNum (5 / 2)" by simp
  from percent_fields_scaled [OF r P] 2 have e: "roe r = PNone" by blast
  show ?thesis by (rule exI [of _ r]) (simp add: r d e)
qed

lemma current_price_of_num:
  "info ''currentPrice'' = Some (PNum x) \<Longrightarrow> x \<noteq> 0 \<Longrightarrow> current_price_of pf info hist = Inr x"
  by (simp add: current_price_of_def dict_get_def)

lemma current_price_of_fallback:
  "info ''currentPrice'' \<in> {None, Some PNone, Some (PNum 0)} \<Longrightarrow> hist \<noteq> [] \<Longrightarrow>
     current_price_of pf info hist = Inr (Close (last hist))"
  by (auto simp: current_price_of_def dict_get_def)

text \<open>
  Claim C8: the current price of a record is the snapshot's \<open>currentPrice\<close> when
  that is a number other than zero, and the last close of the accepted history when
  it is missing, \<open>None\<close> or zero.
\<close>

theorem current_price_resolution:
  assumes "get_stock_info P pf s = Some r" and "P (normalized_symbol r) = Inr (info, hist)"
  shows "(\<forall>x. info ''currentPrice'' = Some (PNum x) \<and> x \<noteq> 0 \<longrightarrow> current_price r = x) \<and>
         (info ''currentPrice'' \<in> {None, Some PNone, Some (PNum 0)} \<longrightarrow>
            hist \<noteq> [] \<and> current_price r = Close (last hist))"
proof -
  have mk: "make_stock_data pf s (normalized_symbol r) info hist = Inr r"
    using assms by (rule get_stock_info_fields)
  have ne: "hist \<noteq> []" using assms by (rule get_stock_info_fields)
  have cp: "current_price_of pf info hist = Inr (current_price r)"
    using mk by (rule make_stock_data_fields)
  have 1: "current_price r = x" if "info ''currentPrice'' = Some (PNum x)" "x \<noteq> 0" for x
    using that cp by (simp add: current_price_of_num)
  have 2: "current_price r = Close (last hist)"
    if "info ''currentPrice'' \<in> {None, Some PNone, Some (PNum 0)}"
    using that ne cp by (simp add: current_price_of_fallback)
  from 1 2 ne show ?thesis by blast
qed

theorem current_price_resolution_witness:
  "(\<exists>r. get_stock_info bombay_only no_parse ''AAPL'' = Some r \<and> current_price r = 11) \<and>
   (\<exists>r. get_stock_info both_days no_parse ''AAPL'' = Some r \<and> current_price r = 12)"
proof -
  from sample_fetch obtain r where r: "get_stock_info bombay_only no_parse ''AAPL'' = Some r"
    and n: "normalized_symbol r = ''AAPL.BO''" by blast
  have P: "bombay_only (normalized_symbol r) = Inr (sample_info, two_days)"
    by (simp add: n bombay_only_def)
  have 1: "sample_info ''currentPrice'' = Some (PNum 11) \<and> (11 :: real) \<noteq> 0"
    by (simp add: sample_info_def)
  from current_price_resolution [OF r P] 1 have a: "current_price r = 11" by blast
  from both_days_fetch obtain r' where r': "get_stock_info both_days no_parse ''AAPL'' = Some r'"
    and n': "normalized_symbol r' = ''AAPL''" by blast
  have P': "both_days (normalized_symbol r') = Inr (Map.empty, two_days)"
    by (simp add: n' both_days_def)
  have 2: "Map.empty ''currentPrice'' \<in> {None, Some PNone, Some (PNum 0)}" by simp
  from current_price_resolution [OF r' P'] 2 have "current_price r' = Close (last two_days)" by blast
  then have b: "current_price r' = 12" by (simp add: two_days_def)
  have A: "\<exists>r. get_stock_info bombay_only no_parse ''AAPL'' = Some r \<and> current_price r = 11"
    by (rule exI [of _ r]) (simp add: r a)
  have B: "\<exists>r. get_stock_info both_days no_parse ''AAPL'' = Some r \<and> current_price r = 12"
    by (rule exI [of _ r']) (simp add: r' b)
  from A B show ?thesis by (rule conjI)
qed

lemma analyze_loop_map_of:
  "map_of (analyze_loop P pf acc symbols) k =
     (if k \<in> set symbols \<and> get_stock_info P pf k \<noteq> None then get_stock_info P pf k
      else map_of acc k)"
proof (induction symbols arbitrary: acc)
  case Nil
  then show ?case by simp
next
  case (Cons s symbols)
  show ?case
  proof (cases "get_stock_info P pf s")
    case None
    then show ?thesis using Cons.IH [of acc] by auto
  next
    case (Some r)
    then show ?thesis using Cons.IH [of "AList.update s r acc"]
      by (auto simp: update_conv')
  qed
qed

lemma scan_all_empty:
  "\<forall>c\<in>set cs. \<exists>i. P c = Inr (i, []) \<Longrightarrow> scan P cs tr = (tr @ cs, None)"
  by (induction cs arbitrary: tr) auto

lemma get_stock_info_no_data:
  "\<forall>c\<in>set (candidates s). \<exists>i. P c = Inr (i, []) \<Longrightarrow> get_stock_info P pf s = None"
  by (simp add: get_stock_info_scan scan_all_empty finish_def)

lemma get_stock_info_history: "get_stock_info P pf s = Some r \<Longrightarrow> price_history r \<noteq> []"
proof -
  assume a: "get_stock_info P pf s = Some r"
  from get_stock_info_SomeD [OF a] obtain info hist where
    ne: "hist \<noteq> []" and mk: "make_stock_data pf s (normalized_symbol r) info hist = Inr r"
    by blast
  from make_stock_data_fields(3) [OF mk] ne show ?thesis by simp
qed

section \<open>Claims about the batch\<close>

text \<open>
  Claim C9: the result of \<open>analyze_stocks\<close> maps a symbol of the input list to the
  record \<open>get_stock_info\<close> returns for it and has no entry for any other symbol or
  for a symbol whose fetch returns \<open>None\<close>, whatever the other symbols' fetches do;
  every record in the result has a non-empty price history; and a symbol whose
  candidates all have an empty history has no entry.
\<close>

theorem analyze_stocks_keeps_successes:
  "map_of (analyze_stocks P pf symbols) k =
     (if k \<in> set symbols then get_stock_info P pf k else None) \<and>
   (\<forall>r. map_of (analyze_stocks P pf symbols) k = Some r \<longrightarrow> price_history r \<noteq> []) \<and>
   ((\<forall>c\<in>set (candidates k). \<exists>i. P c = Inr (i, [])) \<longrightarrow>
      map_of (analyze_stocks P pf symbols) k = None)"
proof -
  have 1: "map_of (analyze_stocks P pf symbols) k =
     (if k \<in> set symbols then get_stock_info P pf k else None)"
    by (simp add: analyze_stocks_def analyze_loop_map_of)
  have 2: "price_history r \<noteq> []" if "map_of (analyze_stocks P pf symbols) k = Some r" for r
  proof -
    from that 1 have "get_stock_info P pf k = Some r" by (simp split: if_splits)
    then show ?thesis by (rule get_stock_info_history)
  qed
  have 3: "map_of (analyze_stocks P pf symbols) k = None"
    if "\<forall>c\<in>set (candidates k). \<exists>i. P c = Inr (i, [])"
    using get_stock_info_no_data [OF that, of pf] by (simp add: 1)
  from 1 2 3 show ?thesis by blast
qed

lemma no_data_fetch: "get_stock_info both_days no_parse ''ZZZZ'' = None"
proof -
  have c: "candidates ''ZZZZ'' = [''ZZZZ'', ''ZZZZ.NS'', ''ZZZZ.BO'']"
    by (simp add: eval_defs)
  have sc: "scan both_days [''ZZZZ'', ''ZZZZ.NS'', ''ZZZZ.BO''] [] =
      ([''ZZZZ'', ''ZZZZ.NS'', ''ZZZZ.BO''], None)"
    by (simp add: both_days_def)
  show ?thesis unfolding get_stock_info_scan c sc by (simp add: finish_def)
qed

lemma msft_fetch:
  "\<exists>r. get_stock_info both_days no_parse ''MSFT'' = Some r \<and> normalized_symbol r = ''MSFT''"
proof -
  have c: "candidates ''MSFT'' = [''MSFT'', ''MSFT.NS'', ''MSFT.BO'']"
    by (simp add: eval_defs)
  have ne: "msft_days \<noteq> []" by (simp add: msft_days_def)
  have sc: "scan both_days [''MSFT'', ''MSFT.NS'', ''MSFT.BO''] [] =
      ([''MSFT''], Some (Inr (''MSFT'', Map.empty, msft_days)))"
    by (simp add: both_days_def ne)
  have "\<exists>r. make_stock_data no_parse ''MSFT'' ''MSFT'' Map.empty msft_days = Inr r"
    by (simp add: make_stock_data_def current_price_of_def dict_get_def msft_days_def)
  then obtain r where r: "make_stock_data no_parse ''MSFT'' ''MSFT'' Map.empty msft_days = Inr r"
    by blast
  have "get_stock_info both_days no_parse ''MSFT'' = Some r"
    unfolding get_stock_info_scan c sc by (simp add: finish_data r)
  moreover from r have "normalized_symbol r = ''MSFT''" by (rule make_stock_data_fields)
  ultimately show ?thesis by blast
qed

theorem analyze_stocks_keeps_successes_witness:
  "map_of (analyze_stocks both_days no_parse [''ZZZZ'', ''MSFT'']) ''ZZZZ'' = None \<and>
   (\<exists>r. map_of (analyze_stocks both_days no_parse [''ZZZZ'', ''MSFT'']) ''MSFT'' = Some r \<and>
        price_history r \<noteq> [])"
proof -
  from msft_fetch obtain r where r: "get_stock_info both_days no_parse ''MSFT'' = Some r"
    by blast
  have e: "\<forall>c\<in>set (candidates ''ZZZZ''). \<exists>i. both_days c = Inr (i, [])"
    by (simp add: eval_defs both_days_def)
  from analyze_stocks_keeps_successes [of both_days no_parse "[''ZZZZ'', ''MSFT'']" "''ZZZZ''"] e
  have a: "map_of (analyze_stocks both_days no_parse [''ZZZZ'', ''MSFT'']) ''ZZZZ'' = None"
    by blast
  from analyze_stocks_keeps_successes [of both_days no_parse "[''ZZZZ'', ''MSFT'']" "''MSFT''"]
  have b: "map_of (analyze_stocks both_days no_parse [''ZZZZ'', ''MSFT'']) ''MSFT'' = Some r"
    and c: "price_history r \<noteq> []"
    by (simp_all add: r)
  have "\<exists>r. map_of (analyze_stocks both_days no_parse [''ZZZZ'', ''MSFT'']) ''MSFT'' = Some r \<and>
        price_history r \<noteq> []"
    by (rule exI [of _ r]) (simp add: b c)
  with a show ?thesis by (rule conjI)
qed

section \<open>Sums of squares and the Pearson coefficient\<close>

lemma sum_sq_expand:
  fixes ps :: "(real \<times> real) list"
  shows "sum_list (map (\<lambda>(a, b). (a * t + b) * (a * t + b)) ps) =
         t * t * sum_list (map (\<lambda>(a, b). a * a) ps)
         + 2 * t * sum_list (map (\<lambda>(a, b). a * b) ps)
         + sum_list (map (\<lambda>(a, b). b * b) ps)"
  by (induction ps) (auto simp: algebra_simps)

lemma sum_sq_nonneg:
  fixes ps :: "(real \<times> real) list"
  shows "0 \<le> sum_list (map (\<lambda>(a, b). (a * t + b) * (a * t + b)) ps)"
  by (rule sum_list_nonneg) auto

lemma cauchy_schwarz_list:
  fixes ps :: "(real \<times> real) list"
  assumes "0 < sum_list (map (\<lambda>(a, b). a * a) ps)"
  shows "sum_list (map (\<lambda>(a, b). a * b) ps) * sum_list (map (\<lambda>(a, b). a * b) ps)
         \<le> sum_list (map (\<lambda>(a, b). a * a) ps) * sum_list (map (\<lambda>(a, b). b * b) ps)"
proof -
  define A where "A = sum_list (map (\<lambda>(a, b). a * a) ps)"
  define B where "B = sum_list (map (\<lambda>(a, b). b * b) ps)"
  define C where "C = sum_list (map (\<lambda>(a, b). a * b) ps)"
  have A: "0 < A" using assms by (simp add: A_def)
  define t where "t = - C / A"
  have "0 \<le> t * t * A + 2 * t * C + B"
    using sum_sq_nonneg [of t ps] unfolding sum_sq_expand A_def B_def C_def .
  moreover have "t * t * A + 2 * t * C + B = B - C * C / A"
    using A by (simp add: t_def field_simps)
  ultimately have "C * C / A \<le> B" by simp
  then have "C * C \<le> B * A" using A by (simp add: pos_divide_le_eq)
  then show ?thesis unfolding A_def B_def C_def by (simp add: mult.commute)
qed

lemma sum_sq_pos:
  fixes xs :: "real list"
  assumes "x \<in> set xs" and "y \<in> set xs" and "x \<noteq> y"
  shows "0 < sum_list (map (\<lambda>z. (z - m) * (z - m)) xs)"
proof -
  have nn: "\<And>v. v \<in> set (map (\<lambda>z. (z - m) * (z - m)) xs) \<Longrightarrow> 0 \<le> v" by auto
  have "sum_list (map (\<lambda>z. (z - m) * (z - m)) xs) \<noteq> 0"
  proof
    assume "sum_list (map (\<lambda>z. (z - m) * (z - m)) xs) = 0"
    with sum_list_nonneg_eq_0_iff [of "map (\<lambda>z. (z - m) * (z - m)) xs"] nn
    have "\<forall>v\<in>set (map (\<lambda>z. (z - m) * (z - m)) xs). v = 0"
      by blast
    then have "\<forall>z\<in>set xs. (z - m) * (z - m) = 0" by simp
    then have all: "\<forall>z\<in>set xs. z = m" by simp
    from all assms(1) have "x = m" by (rule bspec)
    moreover from all assms(2) have "y = m" by (rule bspec)
    ultimately show False using assms(3) by simp
  qed
  moreover have "0 \<le> sum_list (map (\<lambda>z. (z - m) * (z - m)) xs)"
    using nn by (rule sum_list_nonneg)
  ultimately show ?thesis by simp
qed

lemma pearson_map:
  assumes "idx \<noteq> []"
  shows "pearson (map (\<lambda>t. (f t, g t)) idx) =
     (let mx = mean (map f idx); my = mean (map g idx);
          sx = sum_list (map (\<lambda>t. (f t - mx) * (f t - mx)) idx);
          sy = sum_list (map (\<lambda>t. (g t - my) * (g t - my)) idx);
          c = sum_list (map (\<lambda>t. (f t - mx) * (g t - my)) idx)
      in if sqrt (sx * sy) \<noteq> 0 then Fin (c / sqrt (sx * sy)) else NaN)"
  using assms by (simp add: pearson_def Let_def comp_def)

lemma pearson_sym:
  assumes "idx \<noteq> []"
  shows "pearson (map (\<lambda>t. (f t, g t)) idx) = pearson (map (\<lambda>t. (g t, f t)) idx)"
  unfolding pearson_map [OF assms] by (simp add: Let_def mult.commute)

lemma pearson_diag:
  assumes "idx \<noteq> []"
    and "0 < sum_list (map (\<lambda>t. (f t - mean (map f idx)) * (f t - mean (map f idx))) idx)"
  shows "pearson (map (\<lambda>t. (f t, f t)) idx) = Fin 1"
  unfolding pearson_map [OF assms(1)] using assms(2) by (simp add: Let_def)

lemma pearson_bound:
  assumes "idx \<noteq> []"
    and sx: "0 < sum_list (map (\<lambda>t. (f t - mean (map f idx)) * (f t - mean (map f idx))) idx)"
    and sy: "0 < sum_list (map (\<lambda>t. (g t - mean (map g idx)) * (g t - mean (map g idx))) idx)"
  shows "\<exists>\<rho>. pearson (map (\<lambda>t. (f t, g t)) idx) = Fin \<rho> \<and> - 1 \<le> \<rho> \<and> \<rho> \<le> 1"
proof -
  define mx where "mx = mean (map f idx)"
  define my where "my = mean (map g idx)"
  define ps where "ps = map (\<lambda>t. (f t - mx, g t - my)) idx"
  define A where "A = sum_list (map (\<lambda>t. (f t - mx) * (f t - mx)) idx)"
  define B where "B = sum_list (map (\<lambda>t. (g t - my) * (g t - my)) idx)"
  define C where "C = sum_list (map (\<lambda>t. (f t - mx) * (g t - my)) idx)"
  have A: "A = sum_list (map (\<lambda>(a, b). a * a) ps)"
    and B: "B = sum_list (map (\<lambda>(a, b). b * b) ps)"
    and C: "C = sum_list (map (\<lambda>(a, b). a * b) ps)"
    by (simp_all add: A_def B_def C_def ps_def comp_def)
  have Apos: "0 < A" and Bpos: "0 < B" using sx sy by (simp_all add: A_def B_def mx_def my_def)
  have cs: "C * C \<le> A * B"
    using cauchy_schwarz_list [of ps] Apos unfolding A B C by simp
  have dpos: "0 < sqrt (A * B)" using Apos Bpos by simp
  have "\<bar>C\<bar> = sqrt (C * C)" by simp
  also have "\<dots> \<le> sqrt (A * B)" using cs by (rule real_sqrt_le_mono)
  finally have le: "\<bar>C\<bar> \<le> sqrt (A * B)" .
  from le have "C \<le> sqrt (A * B)" and "- sqrt (A * B) \<le> C" by linarith+
  with dpos have b: "- 1 \<le> C / sqrt (A * B) \<and> C / sqrt (A * B) \<le> 1"
    by (simp add: pos_divide_le_eq pos_le_divide_eq)
  have "pearson (map (\<lambda>t. (f t, g t)) idx) =
      (if sqrt (A * B) \<noteq> 0 then Fin (C / sqrt (A * B)) else NaN)"
    unfolding pearson_map [OF assms(1)] Let_def A_def B_def C_def mx_def my_def ..
  with Apos Bpos have "pearson (map (\<lambda>t. (f t, g t)) idx) = Fin (C / sqrt (A * B))"
    by simp
  with b show ?thesis by blast
qed

section \<open>Data frames\<close>

lemma price_data_of_set:
  "set (price_data_of sd) = {(k, price_history d) | k d. (k, d) \<in> set sd \<and> price_history d \<noteq> []}"
  by (auto simp: price_data_of_def)

lemma price_data_of_length:
  "length (price_data_of sd) = length (filter (\<lambda>(k, d). price_history d \<noteq> []) sd)"
  by (simp add: price_data_of_def)

lemma columns_dropna:
  "df_columns (dropna (DataFrame pd)) = map (\<lambda>(k, s). (k, map_of s)) pd"
  by (simp add: dropna_def DataFrame_def)

lemma map_of_Some_iff: "(\<exists>y. map_of xs t = Some y) \<longleftrightarrow> t \<in> fst ` set xs"
  using map_of_eq_None_iff [of xs t] by auto

lemma index_dropna:
  "set (df_index (dropna (DataFrame pd))) =
     {t. (\<exists>(k, s)\<in>set pd. t \<in> fst ` set s) \<and> (\<forall>(k, s)\<in>set pd. t \<in> fst ` set s)}"
proof -
  have keep: "list_all (\<lambda>(k, c). c t \<noteq> None) (map (\<lambda>(k, s). (k, map_of s)) pd)
      \<longleftrightarrow> (\<forall>(k, s)\<in>set pd. t \<in> fst ` set s)" for t
    by (simp add: list_all_iff case_prod_beta map_of_Some_iff)
  have un: "t \<in> set (concat (map (\<lambda>(k, s). map fst s) pd))
      \<longleftrightarrow> (\<exists>(k, s)\<in>set pd. t \<in> fst ` set s)" for t
    by (simp add: case_prod_beta)
  have "set (df_index (dropna (DataFrame pd))) =
      {t \<in> set (concat (map (\<lambda>(k, s). map fst s) pd)).
         list_all (\<lambda>(k, c). c t \<noteq> None) (map (\<lambda>(k, s). (k, map_of s)) pd)}"
    by (simp add: dropna_def DataFrame_def)
  then show ?thesis unfolding keep un by blast
qed

lemma index_dropna_nonempty:
  "pd \<noteq> [] \<Longrightarrow>
     set (df_index (dropna (DataFrame pd))) = {t. \<forall>(k, s)\<in>set pd. t \<in> fst ` set s}"
proof -
  assume "pd \<noteq> []"
  then obtain k s where "(k, s) \<in> set pd" by (cases pd) auto
  then show ?thesis unfolding index_dropna by blast
qed

lemma pairs_total:
  "\<forall>t\<in>set idx. ca t \<noteq> None \<and> cb t \<noteq> None \<Longrightarrow>
     pairs idx ca cb = map (\<lambda>t. (the (ca t), the (cb t))) idx"
  by (induction idx) auto

lemma cell_corr:
  assumes "map_of (df_columns df) a = Some ca" and "map_of (df_columns df) b = Some cb"
  shows "cell (corr df) a b = Some (pearson (pairs (df_index df) ca cb))"
  using assms by (simp add: cell_def corr_def map_of_map)

lemma corr_labels:
  "map fst (corr df) = map fst (df_columns df)"
  "\<forall>col\<in>set (corr df). map fst (snd col) = map fst (df_columns df)"
  by (auto simp: corr_def comp_def case_prod_beta)

lemma column_lookup:
  assumes "a \<in> set (map fst pd)"
  shows "\<exists>s. (a, s) \<in> set pd \<and> map_of (map (\<lambda>(k, s). (k, map_of s)) pd) a = Some (map_of s)"
proof -
  from assms have "map_of pd a \<noteq> None" by (simp add: map_of_eq_None_iff)
  then obtain s where s: "map_of pd a = Some s" by blast
  then have "(a, s) \<in> set pd" by (rule map_of_SomeD)
  moreover have "map_of (map (\<lambda>(k, s). (k, map_of s)) pd) a = Some (map_of s)"
    by (simp add: map_of_map s)
  ultimately show ?thesis by blast
qed

section \<open>Claims about correlations\<close>

text \<open>
  Claim C2: \<open>calculate_correlations\<close> returns \<open>None\<close> when fewer than two records
  have a non-empty price series, and when no date is present in every non-empty
  series (the alignment leaves no row).  The function is total: it does not raise.
\<close>

theorem no_matrix_without_overlap:
  assumes "length (filter (\<lambda>(k, d). price_history d \<noteq> []) sd) < 2 \<or>
           (\<forall>t. \<exists>(k, d)\<in>set sd. price_history d \<noteq> [] \<and> t \<notin> fst ` set (price_history d))"
  shows "calculate_correlations sd = None"
proof (cases "length (price_data_of sd) < 2")
  case True
  then show ?thesis by (simp add: calculate_correlations_def)
next
  case False
  with assms have no: "\<forall>t. \<exists>(k, d)\<in>set sd. price_history d \<noteq> [] \<and> t \<notin> fst ` set (price_history d)"
    by (simp add: price_data_of_length)
  have "set (df_index (dropna (DataFrame (price_data_of sd)))) = {}"
  proof -
    have "\<not> (\<forall>(k, s)\<in>set (price_data_of sd). t \<in> fst ` set s)" for t
    proof -
      from no obtain k d where "(k, d) \<in> set sd" "price_history d \<noteq> []"
        "t \<notin> fst ` set (price_history d)" by blast
      then have "(k, price_history d) \<in> set (price_data_of sd)"
        by (auto simp: price_data_of_set)
      with \<open>t \<notin> fst ` set (price_history d)\<close> show ?thesis by blast
    qed
    then show ?thesis unfolding index_dropna by blast
  qed
  then have "df_empty (dropna (DataFrame (price_data_of sd)))"
    by (simp add: df_empty_def)
  then show ?thesis by (simp add: calculate_correlations_def Let_def)
qed

theorem no_matrix_without_overlap_witness:
  "calculate_correlations single_data = None \<and> calculate_correlations disjoint_data = None"
proof -
  have 1: "length (filter (\<lambda>(k, d). price_history d \<noteq> []) single_data) < 2"
    by (simp add: single_data_def sample_record_def)
  have 2: "\<forall>t. \<exists>(k, d)\<in>set disjoint_data. price_history d \<noteq> [] \<and> t \<notin> fst ` set (price_history d)"
    by (auto simp: disjoint_data_def sample_record_def)
  from no_matrix_without_overlap [of single_data] 1 have a: "calculate_correlations single_data = None" by blast
  from no_matrix_without_overlap [of disjoint_data] 2 have b: "calculate_correlations disjoint_data = None" by blast
  from a b show ?thesis by (rule conjI)
qed

text \<open>
  Claim C3, as stated: with at least two non-empty series and at least one shared
  date the matrix has a unit diagonal, is symmetric and has its cells in \<open>[-1, 1]\<close>.
  It fails for two records with one row each, at the same date: a matrix is
  returned, and every cell of it, the diagonal included, is NaN, since a column
  of one value has no spread to divide by.
\<close>

theorem single_overlap_counterexample:
  "map (\<lambda>(k, d). (k, price_history d)) one_row_data =
     [(''AAPL'', [(1, 10)]), (''MSFT'', [(1, 20)])] \<and>
   calculate_correlations one_row_data =
     Some [(''AAPL'', [(''AAPL'', NaN), (''MSFT'', NaN)]),
           (''MSFT'', [(''AAPL'', NaN), (''MSFT'', NaN)])] \<and>
   cell (the (calculate_correlations one_row_data)) ''AAPL'' ''AAPL'' \<noteq> Some (Fin 1)"
proof -
  define df where "df = dropna (DataFrame (price_data_of one_row_data))"
  have pd: "price_data_of one_row_data = [(''AAPL'', [(1, 10)]), (''MSFT'', [(1, 20)])]"
    by (simp add: price_data_of_def one_row_data_def sample_record_def)
  have idx: "df_index df = [1]"
    by (simp add: df_def pd dropna_def DataFrame_def)
  have cols: "df_columns df = [(''AAPL'', map_of [(1, 10)]), (''MSFT'', map_of [(1, 20)])]"
    by (simp add: df_def pd columns_dropna)
  have p: "pearson [(x, y)] = NaN" for x y
    by (simp add: pearson_def mean_def)
  have corr: "corr df = [(''AAPL'', [(''AAPL'', NaN), (''MSFT'', NaN)]),
                         (''MSFT'', [(''AAPL'', NaN), (''MSFT'', NaN)])]"
    unfolding corr_def idx cols by (simp add: p)
  have "calculate_correlations one_row_data = (if df_empty df then None else Some (corr df))"
    by (simp add: calculate_correlations_def Let_def df_def pd)
  then have c: "calculate_correlations one_row_data =
     Some [(''AAPL'', [(''AAPL'', NaN), (''MSFT'', NaN)]),
           (''MSFT'', [(''AAPL'', NaN), (''MSFT'', NaN)])]"
    by (simp add: df_empty_def idx cols corr)
  have l: "map (\<lambda>(k, d). (k, price_history d)) one_row_data =
     [(''AAPL'', [(1, 10)]), (''MSFT'', [(1, 20)])]"
    by (simp add: one_row_data_def sample_record_def)
  show ?thesis unfolding c using l by (simp add: cell_def)
qed

text \<open>
  Claim C3, amended: when at least two records have a non-empty series and every
  such series takes two different values on the dates that all of them share, the
  result is a matrix whose columns and rows are labelled by exactly those symbols,
  in order; every diagonal cell is \<open>1\<close>, the matrix is symmetric, and every cell is
  a number in \<open>[-1, 1]\<close>.
\<close>

theorem correlation_matrix_properties:
  assumes pd: "pd = price_data_of sd" and syms: "syms = map fst pd"
    and two: "2 \<le> length pd"
    and varies: "\<forall>(k, s)\<in>set pd. \<exists>t1 t2.
        (\<forall>(k', s')\<in>set pd. t1 \<in> fst ` set s' \<and> t2 \<in> fst ` set s') \<and>
        map_of s t1 \<noteq> map_of s t2"
  shows "\<exists>M. calculate_correlations sd = Some M \<and> map fst M = syms \<and>
           (\<forall>col\<in>set M. map fst (snd col) = syms) \<and>
           (\<forall>a\<in>set syms. \<forall>b\<in>set syms.
              cell M a a = Some (Fin 1) \<and> cell M a b = cell M b a \<and>
              (\<exists>\<rho>. cell M a b = Some (Fin \<rho>) \<and> - 1 \<le> \<rho> \<and> \<rho> \<le> 1))"
proof -
  define df where "df = dropna (DataFrame pd)"
  define idx where "idx = df_index df"
  have ne: "pd \<noteq> []" using two by auto
  have cols: "df_columns df = map (\<lambda>(k, s). (k, map_of s)) pd"
    by (simp add: df_def columns_dropna)
  have idx_set: "set idx = {t. \<forall>(k, s)\<in>set pd. t \<in> fst ` set s}"
    unfolding idx_def df_def using ne by (rule index_dropna_nonempty)
  text \<open>Every usable series has a value at every row, and two different values.\<close>
  have total: "map_of s t \<noteq> None" if "(k, s) \<in> set pd" "t \<in> set idx" for k s t
    using that idx_set by (auto simp: map_of_eq_None_iff)
  have spread: "0 < sum_list (map (\<lambda>t. (the (map_of s t) - m) * (the (map_of s t) - m)) idx)"
    if ks: "(k, s) \<in> set pd" for k s m
  proof -
    from bspec [OF varies ks]
    have "\<exists>t1 t2. (\<forall>x\<in>set pd. t1 \<in> fst ` set (snd x) \<and> t2 \<in> fst ` set (snd x)) \<and>
        map_of s t1 \<noteq> map_of s t2"
      by (simp add: case_prod_beta)
    then obtain t1 t2 where
      c: "\<forall>x\<in>set pd. t1 \<in> fst ` set (snd x) \<and> t2 \<in> fst ` set (snd x)"
      and d: "map_of s t1 \<noteq> map_of s t2" by (elim exE conjE)
    from c have t: "t1 \<in> set idx" "t2 \<in> set idx"
      unfolding idx_set by (simp_all add: case_prod_beta)
    from total [OF ks t(1)] obtain v1 where v1: "map_of s t1 = Some v1" by (cases "map_of s t1") simp_all
    from total [OF ks t(2)] obtain v2 where v2: "map_of s t2 = Some v2" by (cases "map_of s t2") simp_all
    from d v1 v2 have d': "v1 \<noteq> v2" by simp
    have m1: "v1 \<in> set (map (\<lambda>t. the (map_of s t)) idx)"
      using t(1) v1 by (simp add: image_iff) (metis option.sel)
    have m2: "v2 \<in> set (map (\<lambda>t. the (map_of s t)) idx)"
      using t(2) v2 by (simp add: image_iff) (metis option.sel)
    have "0 < sum_list (map (\<lambda>z. (z - m) * (z - m)) (map (\<lambda>t. the (map_of s t)) idx))"
      using m1 m2 d' by (rule sum_sq_pos)
    then show ?thesis by (simp add: comp_def)
  qed
  have idx_ne: "idx \<noteq> []"
  proof -
    from ne obtain k s where ks: "(k, s) \<in> set pd" by (cases pd) auto
    from spread [OF ks, of 0] show ?thesis by auto
  qed
  have prs: "pairs idx (map_of s) (map_of s') =
      map (\<lambda>t. (the (map_of s t), the (map_of s' t))) idx"
    if "(k, s) \<in> set pd" "(k', s') \<in> set pd" for k s k' s'
    using that total by (intro pairs_total) blast
  have res: "calculate_correlations sd = Some (corr df)"
    using two idx_ne ne
    by (simp add: calculate_correlations_def Let_def pd [symmetric] df_def [symmetric]
        df_empty_def idx_def [symmetric] cols)
  have labels: "map fst (corr df) = syms" "\<forall>col\<in>set (corr df). map fst (snd col) = syms"
    using corr_labels [of df] by (simp_all add: cols syms comp_def case_prod_beta)
  have cells: "cell (corr df) a a = Some (Fin 1) \<and> cell (corr df) a b = cell (corr df) b a \<and>
      (\<exists>\<rho>. cell (corr df) a b = Some (Fin \<rho>) \<and> - 1 \<le> \<rho> \<and> \<rho> \<le> 1)"
    if a: "a \<in> set syms" and b: "b \<in> set syms" for a b
  proof -
    define fa where "fa = (\<lambda>t. the (map_of (the (map_of pd a)) t))"
    define fb where "fb = (\<lambda>t. the (map_of (the (map_of pd b)) t))"
    from a have "a \<in> set (map fst pd)" by (simp add: syms)
    from column_lookup [OF this] obtain sa where sa: "(a, sa) \<in> set pd"
      and ca0: "map_of (map (\<lambda>(k, s). (k, map_of s)) pd) a = Some (map_of sa)"
      by (elim exE conjE)
    from b have "b \<in> set (map fst pd)" by (simp add: syms)
    from column_lookup [OF this] obtain sb where sb: "(b, sb) \<in> set pd"
      and cb0: "map_of (map (\<lambda>(k, s). (k, map_of s)) pd) b = Some (map_of sb)"
      by (elim exE conjE)
    have ca: "map_of (df_columns df) a = Some (map_of sa)" unfolding cols by (rule ca0)
    have cb: "map_of (df_columns df) b = Some (map_of sb)" unfolding cols by (rule cb0)
    have fa: "fa = (\<lambda>t. the (map_of sa t))"
      using ca0 by (simp add: fa_def map_of_map) (metis map_of_SomeD sa option.sel)
    have fb: "fb = (\<lambda>t. the (map_of sb t))"
      using cb0 by (simp add: fb_def map_of_map) (metis map_of_SomeD sb option.sel)
    have pa: "0 < sum_list (map (\<lambda>t. (fa t - mean (map fa idx)) * (fa t - mean (map fa idx))) idx)"
      unfolding fa by (rule spread [OF sa])
    have pb: "0 < sum_list (map (\<lambda>t. (fb t - mean (map fb idx)) * (fb t - mean (map fb idx))) idx)"
      unfolding fb by (rule spread [OF sb])
    have aa: "cell (corr df) a a = Some (pearson (map (\<lambda>t. (fa t, fa t)) idx))"
    proof -
      have "pairs idx (map_of sa) (map_of sa) = map (\<lambda>t. (fa t, fa t)) idx"
        unfolding fa fb by (rule prs [OF sa sa])
      with cell_corr [OF ca ca] show ?thesis by (simp add: idx_def)
    qed
    have ab: "cell (corr df) a b = Some (pearson (map (\<lambda>t. (fa t, fb t)) idx))"
    proof -
      have "pairs idx (map_of sa) (map_of sb) = map (\<lambda>t. (fa t, fb t)) idx"
        unfolding fa fb by (rule prs [OF sa sb])
      with cell_corr [OF ca cb] show ?thesis by (simp add: idx_def)
    qed
    have ba: "cell (corr df) b a = Some (pearson (map (\<lambda>t. (fb t, fa t)) idx))"
    proof -
      have "pairs idx (map_of sb) (map_of sa) = map (\<lambda>t. (fb t, fa t)) idx"
        unfolding fa fb by (rule prs [OF sb sa])
      with cell_corr [OF cb ca] show ?thesis by (simp add: idx_def)
    qed
    have 1: "cell (corr df) a a = Some (Fin 1)"
      unfolding aa using pearson_diag [of idx fa, OF idx_ne pa] by simp
    have 2: "cell (corr df) a b = cell (corr df) b a"
      unfolding ab ba using pearson_sym [of idx fa fb, OF idx_ne] by simp
    from pearson_bound [of idx fa fb, OF idx_ne pa pb]
    obtain \<rho> where "pearson (map (\<lambda>t. (fa t, fb t)) idx) = Fin \<rho>" "- 1 \<le> \<rho>" "\<rho> \<le> 1"
      by (elim exE conjE)
    then have 3: "\<exists>\<rho>. cell (corr df) a b = Some (Fin \<rho>) \<and> - 1 \<le> \<rho> \<and> \<rho> \<le> 1"
      unfolding ab by (intro exI [of _ \<rho>]) simp
    from 1 2 3 show ?thesis by (intro conjI)
  qed
  show ?thesis
  proof (intro exI [of _ "corr df"] conjI)
    show "calculate_correlations sd = Some (corr df)" by (rule res)
    show "map fst (corr df) = syms" by (rule labels)
    show "\<forall>col\<in>set (corr df). map fst (snd col) = syms" by (rule labels)
    show "\<forall>a\<in>set syms. \<forall>b\<in>set syms.
        cell (corr df) a a = Some (Fin 1) \<and> cell (corr df) a b = cell (corr df) b a \<and>
        (\<exists>\<rho>. cell (corr df) a b = Some (Fin \<rho>) \<and> - 1 \<le> \<rho> \<and> \<rho> \<le> 1)"
      by (intro ballI cells)
  qed
qed

theorem correlation_matrix_properties_witness:
  "\<exists>M. calculate_correlations two_row_data = Some M \<and> map fst M = [''AAPL'', ''MSFT''] \<and>
       cell M ''AAPL'' ''AAPL'' = Some (Fin 1) \<and> cell M ''MSFT'' ''MSFT'' = Some (Fin 1) \<and>
       cell M ''AAPL'' ''MSFT'' = cell M ''MSFT'' ''AAPL'' \<and>
       (\<exists>\<rho>. cell M ''AAPL'' ''MSFT'' = Some (Fin \<rho>) \<and> - 1 \<le> \<rho> \<and> \<rho> \<le> 1)"
proof -
  define pd where "pd = price_data_of two_row_data"
  have pdv: "pd = [(''AAPL'', [(1, 10), (2, 12)]), (''MSFT'', [(1, 30), (2, 20)])]"
    by (simp add: pd_def price_data_of_def two_row_data_def sample_record_def)
  have syms: "[''AAPL'', ''MSFT''] = map fst pd" by (simp add: pdv)
  have two: "2 \<le> length pd" by (simp add: pdv)
  have varies: "\<forall>(k, s)\<in>set pd. \<exists>t1 t2.
        (\<forall>(k', s')\<in>set pd. t1 \<in> fst ` set s' \<and> t2 \<in> fst ` set s') \<and>
        map_of s t1 \<noteq> map_of s t2"
  proof -
    have "\<exists>t1 t2. (\<forall>(k', s')\<in>set pd. t1 \<in> fst ` set s' \<and> t2 \<in> fst ` set s') \<and>
        map_of s t1 \<noteq> map_of s t2" if "(k, s) \<in> set pd" for k s
    proof -
      from that have "s = [(1, 10), (2, 12)] \<or> s = [(1, 30), (2, 20)]"
        by (auto simp: pdv)
      then show ?thesis
        by (intro exI [of _ 1] exI [of _ 2]) (auto simp: pdv)
    qed
    then show ?thesis by blast
  qed
  from correlation_matrix_properties [OF pd_def syms two varies]
  obtain M where M: "calculate_correlations two_row_data = Some M"
    and l: "map fst M = [''AAPL'', ''MSFT'']"
    and c: "\<forall>a\<in>set [''AAPL'', ''MSFT'']. \<forall>b\<in>set [''AAPL'', ''MSFT''].
              cell M a a = Some (Fin 1) \<and> cell M a b = cell M b a \<and>
              (\<exists>\<rho>. cell M a b = Some (Fin \<rho>) \<and> - 1 \<le> \<rho> \<and> \<rho> \<le> 1)"
    by (elim exE conjE)
  have a: "''AAPL'' \<in> set [''AAPL'', ''MSFT'']" and b: "''MSFT'' \<in> set [''AAPL'', ''MSFT'']"
    by simp_all
  note ab = bspec [OF bspec [OF c a] b]
  note bb = bspec [OF bspec [OF c b] b]
  have 1: "cell M ''AAPL'' ''AAPL'' = Some (Fin 1)"
    using ab by (rule conjunct1)
  have 2: "cell M ''AAPL'' ''MSFT'' = cell M ''MSFT'' ''AAPL''"
    using ab [THEN conjunct2] by (rule conjunct1)
  have 3: "\<exists>\<rho>. cell M ''AAPL'' ''MSFT'' = Some (Fin \<rho>) \<and> - 1 \<le> \<rho> \<and> \<rho> \<le> 1"
    using ab [THEN conjunct2] by (rule conjunct2)
  have 4: "cell M ''MSFT'' ''MSFT'' = Some (Fin 1)"
    using bb by (rule conjunct1)
  show ?thesis
  proof (intro exI [of _ M] conjI)
    show "calculate_correlations two_row_data = Some M" by (rule M)
    show "map fst M = [''AAPL'', ''MSFT'']" by (rule l)
    show "cell M ''AAPL'' ''AAPL'' = Some (Fin 1)" by (rule 1)
    show "cell M ''MSFT'' ''MSFT'' = Some (Fin 1)" by (rule 4)
    show "cell M ''AAPL'' ''MSFT'' = cell M ''MSFT'' ''AAPL''" by (rule 2)
    show "\<exists>\<rho>. cell M ''AAPL'' ''MSFT'' = Some (Fin \<rho>) \<and> - 1 \<le> \<rho> \<and> \<rho> \<le> 1" by (rule 3)
  qed
qed

end
